theory Spec2Isabelle
  imports
    Main
    "HOL-Library.Word"
    "HOL-Library.Sublist"
    "HOL-Library.Multiset"
    "HOL-Library.Char_ord"
    "HOL-Library.List_Lexorder"
    "HOL-Library.Product_Lexorder"
    "HOL-Library.Option_ord"
begin

unbundle bit_operations_syntax

section \<open>The feed harvester \<open>fetch_feeds.py\<close>\<close>

text \<open>
  The script is one linear batch run: load the feeds, keep the entries of the last 14 days,
  turn every entry into an item (category, id, prelims), drop duplicates, sort, write.
  Each stage is embedded below as a HOL function named after the source.

  A Python \<open>str\<close> is a sequence of code points. It is modelled as a \<^typ>\<open>string\<close>, so a
  character is a code point in the range 0..255 (ASCII and Latin-1), which holds every
  character the script's own patterns and literals use in the functions embedded here
  (including U+00F1 of the Geography rule); \<open>cp\<close> reads the code point, an integer as
  \<open>ord\<close> gives it. Strings compare as in Python: code point by code point, a proper prefix
  being smaller
  (\<open>HOL-Library.List_Lexorder\<close> over \<open>HOL-Library.Char_ord\<close>).

  An exception is a value: a function that can raise returns \<open>exn + 'a\<close>, with \<open>Inl\<close> for
  the exception. \<open>None\<close> of Python is \<open>None\<close> of an option type.
\<close>

subsection \<open>Exceptions\<close>

datatype exn =
    ValueError string
  | TypeError string
  | OverflowError string
  | Exception string

text \<open>\<open>str(ex)\<close>: the message the exception carries.\<close>

fun str_ex :: "exn \<Rightarrow> string" where
  "str_ex (ValueError m) = m"
| "str_ex (TypeError m) = m"
| "str_ex (OverflowError m) = m"
| "str_ex (Exception m) = m"

subsection \<open>Characters and strings\<close>

text \<open>
  The tables of the interpreter's Unicode database, for the code points 0..255:
  \<open>str.lower\<close> maps A-Z, U+00C0-U+00D6 and U+00D8-U+00DE to the code point 32 higher and
  leaves every other character; \<open>str.isspace\<close> holds of U+0009-U+000D, U+001C-U+0020,
  U+0085 and U+00A0; a word character (\<open>\w\<close> of \<open>re\<close> for \<open>str\<close> patterns: alphanumeric or
  the underscore) is a digit, an ASCII letter, the underscore, or one of U+00AA, U+00B2,
  U+00B3, U+00B5, U+00B9, U+00BA, U+00BC-U+00BE, U+00C0-U+00D6, U+00D8-U+00F6, U+00F8-U+00FF.
\<close>

definition cp :: "char \<Rightarrow> int" where
  "cp c = of_char c"

definition lower_char :: "char \<Rightarrow> char" where
  "lower_char c =
     (if (65 \<le> cp c \<and> cp c \<le> 90) \<or> (192 \<le> cp c \<and> cp c \<le> 222 \<and> cp c \<noteq> 215)
      then char_of (cp c + 32) else c)"

text \<open>
  The code point of the simple upper-case mapping; for U+00B5 and U+00FF it lies outside
  the range of \<^typ>\<open>char\<close>, so the result is a number.
\<close>

definition upper_cp :: "char \<Rightarrow> int" where
  "upper_cp c =
     (if (97 \<le> cp c \<and> cp c \<le> 122) \<or> (224 \<le> cp c \<and> cp c \<le> 254 \<and> cp c \<noteq> 247)
      then cp c - 32
      else if cp c = 181 then 924 else if cp c = 255 then 376 else cp c)"

definition str_lower :: "string \<Rightarrow> string" where
  "str_lower s = map lower_char s"

definition is_space :: "char \<Rightarrow> bool" where
  "is_space c = ((9 \<le> cp c \<and> cp c \<le> 13) \<or> (28 \<le> cp c \<and> cp c \<le> 32) \<or> cp c = 133 \<or> cp c = 160)"

definition is_digit :: "char \<Rightarrow> bool" where
  "is_digit c = (48 \<le> cp c \<and> cp c \<le> 57)"

definition is_word :: "char \<Rightarrow> bool" where
  "is_word c =
     (is_digit c \<or> (65 \<le> cp c \<and> cp c \<le> 90) \<or> cp c = 95 \<or> (97 \<le> cp c \<and> cp c \<le> 122) \<or>
      cp c = 170 \<or> cp c = 178 \<or> cp c = 179 \<or> cp c = 181 \<or> cp c = 185 \<or> cp c = 186 \<or>
      (188 \<le> cp c \<and> cp c \<le> 190) \<or> (192 \<le> cp c \<and> cp c \<le> 214) \<or>
      (216 \<le> cp c \<and> cp c \<le> 246) \<or> 248 \<le> cp c)"

text \<open>\<open>s.strip()\<close>: the string without its leading and trailing whitespace.\<close>

definition strip :: "string \<Rightarrow> string" where
  "strip s = rev (dropWhile is_space (rev (dropWhile is_space s)))"

subsection \<open>Regular expressions: \<open>re.search(pattern, text, flags=re.I)\<close>\<close>

text \<open>
  The constructs the twelve patterns of \<open>RULES\<close> use: a literal character, a character set
  \<open>[- ]\<close>, a range \<open>[A-Z]\<close>, the word boundary \<open>\b\<close>, an optional item \<open>r?\<close>, a sequence and
  an alternation \<open>(a|b|c)\<close>.

  A position in the text is the character before it (if any) and the text from it on.
  \<open>ends r pos\<close> lists every position at which a match of \<open>r\<close> that starts at \<open>pos\<close> can end,
  in the order in which the backtracking matcher tries them. \<open>re.search\<close> returns a match
  exactly if a match starts at some position of the text, so only whether the list is empty
  matters. The flag \<open>re.I\<close> is always set: a literal matches a character with the same
  lower-case form, a range matches a character if it, its lower-case or its upper-case form
  lies in the range.
\<close>

datatype rx =
    Chr char
  | OneOf string
  | Range char char
  | WordB
  | Opt rx
  | Seq "rx list"
  | Alt "rx list"

type_synonym pos = "char option \<times> string"

fun step_char :: "(char \<Rightarrow> bool) \<Rightarrow> pos \<Rightarrow> pos list" where
  "step_char P (prev, []) = []"
| "step_char P (prev, c # cs) = (if P c then [(Some c, cs)] else [])"

definition in_range_ci :: "char \<Rightarrow> char \<Rightarrow> char \<Rightarrow> bool" where
  "in_range_ci lo hi c =
     ((cp lo \<le> cp c \<and> cp c \<le> cp hi) \<or>
      (cp lo \<le> cp (lower_char c) \<and> cp (lower_char c) \<le> cp hi) \<or>
      (cp lo \<le> upper_cp c \<and> upper_cp c \<le> cp hi))"

text \<open>
  \<open>\b\<close> matches between a word character and a character that is none, or the start or
  the end of the text.
\<close>

fun at_boundary :: "pos \<Rightarrow> bool" where
  "at_boundary (prev, rest) =
     ((case prev of None \<Rightarrow> False | Some c \<Rightarrow> is_word c) \<noteq>
      (case rest of [] \<Rightarrow> False | c # cs \<Rightarrow> is_word c))"

fun ends :: "rx \<Rightarrow> pos \<Rightarrow> pos list" where
  "ends (Chr c) pos = step_char (\<lambda>t. lower_char t = lower_char c) pos"
| "ends (OneOf cs) pos = step_char (\<lambda>t. lower_char t \<in> lower_char ` set cs) pos"
| "ends (Range lo hi) pos = step_char (in_range_ci lo hi) pos"
| "ends WordB pos = (if at_boundary pos then [pos] else [])"
| "ends (Opt r) pos = ends r pos @ [pos]"
| "ends (Seq []) pos = [pos]"
| "ends (Seq (r # rs)) pos = concat (map (ends (Seq rs)) (ends r pos))"
| "ends (Alt rs) pos = concat (map (\<lambda>r. ends r pos) rs)"

text \<open>
  \<open>re.search\<close> scans the text: it tries every position from the start on. At a position
  the character before is the last one passed (\<open>char_before\<close> says which, after a prefix).
\<close>

fun search_from :: "rx \<Rightarrow> char option \<Rightarrow> string \<Rightarrow> bool" where
  "search_from r prev [] = (ends r (prev, []) \<noteq> [])"
| "search_from r prev (c # cs) = (ends r (prev, c # cs) \<noteq> [] \<or> search_from r (Some c) cs)"

definition re_search :: "rx \<Rightarrow> string \<Rightarrow> bool" where
  "re_search pattern text = search_from pattern None text"


subsection \<open>Category rules (lines 39-55)\<close>

text \<open>A run of literal characters, and a pattern of the form \<open>\b(a|b|...)\b\<close>.\<close>

definition lit :: "string \<Rightarrow> rx" where
  "lit w = Seq (map Chr w)"

definition words :: "rx list \<Rightarrow> rx" where
  "words alternatives = Seq [WordB, Alt alternatives, WordB]"

definition RULES :: "(rx \<times> string) list" where
  "RULES =
   [(words [lit ''RBI'', lit ''repo rate'', lit ''CPI'', lit ''WPI'', lit ''inflation'', lit ''GST'',
            lit ''Budget'', lit ''Fiscal'', lit ''GDP'', lit ''SEBI'', lit ''bank'', lit ''NBFC'',
            lit ''monetary'', lit ''bond'', lit ''yield'', lit ''FDI''],
     ''Economy''),
    (words [lit ''UN'', lit ''UNFCCC'', lit ''BRICS'', lit ''SCO'', lit ''G20'', lit ''bilateral'',
            lit ''MoU'', lit ''agreement'', lit ''treaty'',
            Seq [lit ''Indo'', Opt (OneOf ''- ''), lit ''Pacific''],
            lit ''MEA'', lit ''summit'', lit ''dialogue''],
     ''International Relations''),
    (words [lit ''environment'', lit ''forest'', lit ''wildlife'', lit ''tiger'', lit ''NTCA'',
            lit ''conservation'', lit ''pollution'', lit ''climate'', lit ''emission'',
            Seq [lit ''biodiversit'', Alt [lit ''y'', lit ''ies'']]],
     ''Environment''),
    (words [lit ''ISRO'', lit ''space'', lit ''satellite'', lit ''launch'', lit ''AI'', lit ''quantum'',
            lit ''semiconductor'', lit ''science'', lit ''technology'', lit ''DST'', lit ''MeitY'',
            lit ''CSIR''],
     ''Science & Tech''),
    (words [lit ''cyclone'', lit ''flood'', lit ''earthquake'', lit ''NDMA'', lit ''disaster'',
            lit ''NDRF'', lit ''security'', lit ''border'', lit ''defence'', lit ''police'',
            lit ''cybersecurity''],
     ''Security/Disaster''),
    (words [lit ''Supreme Court'', lit ''High Court'', Seq [lit ''SC'', WordB],
            Seq [lit ''HC'', WordB], lit ''judgment'', lit ''verdict'', lit ''order''],
     ''Judgments''),
    (words [lit ''Bill'', lit ''Act'', lit ''Amendment'', lit ''Ordinance'', lit ''Parliament'',
            lit ''Lok Sabha'', lit ''Rajya Sabha'', lit ''Gazette''],
     ''Bills & Acts''),
    (words [lit ''Yojana'', lit ''Mission'', lit ''Scheme'',
            Seq [lit ''PM'', Opt (OneOf ''- ''), Range CHR ''A'' CHR ''Z''],
            lit ''SAMARTH'', Seq [lit ''PM'', Opt (OneOf ''- ''), lit ''KISAN''], lit ''PMAY'',
            lit ''AYUSH'', lit ''NREGA'', lit ''Ujjwala'', lit ''UDAN'', lit ''Awas''],
     ''Schemes''),
    (words [lit ''UNESCO'', lit ''heritage'', lit ''temple'', lit ''festival'', lit ''culture'',
            Seq [lit ''archaeolog'', Alt [lit ''y'', lit ''ical'']], lit ''ASI''],
     ''History & Culture''),
    (words [lit ''IMD'', lit ''monsoon'', lit ''heatwave'',
            Seq [lit ''El'', Opt (OneOf ''- ''), lit ''Ni'', Chr (CHR 0xF1), lit ''o''],
            Seq [lit ''La'', Opt (OneOf ''- ''), lit ''Ni'', Chr (CHR 0xF1), lit ''a''],
            lit ''river'', lit ''glacier'', lit ''plateau'', lit ''geomorphology'', lit ''earth'',
            lit ''geography''],
     ''Geography''),
    (words [lit ''NITI Aayog'', lit ''index'', lit ''report'', lit ''survey'', lit ''ranking'',
            lit ''scorecard'', lit ''white paper''],
     ''Reports & Indices''),
    (words [lit ''Cabinet'', lit ''Constitution'', lit ''federal'', lit ''Centre'', lit ''State'',
            lit ''ministry'', lit ''department'', lit ''regulation'', lit ''notification'',
            lit ''guideline'', lit ''policy''],
     ''Polity'')]"

definition FALLBACK :: string where
  "FALLBACK = ''Polity''"

subsection \<open>\<open>classify\<close> (lines 72-77)\<close>

text \<open>
  \<^verbatim>\<open>
  def classify(title, summary, source_hint):
      text = f"{title} {summary} {source_hint}".lower()
      for pattern, cat in RULES:
          if re.search(pattern, text, flags=re.I):
              return cat
      return FALLBACK
  \<close>
\<close>

fun classify_loop :: "(rx \<times> string) list \<Rightarrow> string \<Rightarrow> string" where
  "classify_loop [] text = FALLBACK"
| "classify_loop ((pattern, cat) # rules) text =
     (if re_search pattern text then cat else classify_loop rules text)"

definition classify_text :: "string \<Rightarrow> string \<Rightarrow> string \<Rightarrow> string" where
  "classify_text title summary source_hint =
     str_lower (title @ '' '' @ summary @ '' '' @ source_hint)"

definition classify :: "string \<Rightarrow> string \<Rightarrow> string \<Rightarrow> string" where
  "classify title summary source_hint =
     classify_loop RULES (classify_text title summary source_hint)"

subsection \<open>Calendar dates: \<open>datetime.date\<close>\<close>

text \<open>
  A date of the proleptic Gregorian calendar, as \<open>datetime\<close> holds it: year, month, day.
  The functions below are those of the interpreter's \<open>datetime\<close> module. A date is valid
  (can be constructed) when the year is in 1..9999, the month in 1..12 and the day exists in
  that month. \<open>toordinal\<close> numbers the days from 1 for 0001-01-01; the difference of two
  dates is the difference of their ordinals (\<open>(a - b).days\<close>).
\<close>

datatype cal_date = Date int int int

definition is_leap :: "int \<Rightarrow> bool" where
  "is_leap y = (y mod 4 = 0 \<and> (y mod 100 \<noteq> 0 \<or> y mod 400 = 0))"

definition days_in_month :: "int \<Rightarrow> int \<Rightarrow> int" where
  "days_in_month y m =
     (if m = 2 \<and> is_leap y then 29
      else [31, 28, 31, 30, 31, 30, 31, 31, 30, 31, 30, 31] ! nat (m - 1))"

definition days_before_year :: "int \<Rightarrow> int" where
  "days_before_year y = (y - 1) * 365 + (y - 1) div 4 - (y - 1) div 100 + (y - 1) div 400"

definition days_before_month :: "int \<Rightarrow> int \<Rightarrow> int" where
  "days_before_month y m =
     [0, 31, 59, 90, 120, 151, 181, 212, 243, 273, 304, 334] ! nat (m - 1)
       + (if 2 < m \<and> is_leap y then 1 else 0)"

fun valid_date :: "cal_date \<Rightarrow> bool" where
  "valid_date (Date y m d) =
     (1 \<le> y \<and> y \<le> 9999 \<and> 1 \<le> m \<and> m \<le> 12 \<and> 1 \<le> d \<and> d \<le> days_in_month y m)"

fun toordinal :: "cal_date \<Rightarrow> int" where
  "toordinal (Date y m d) = days_before_year y + days_before_month y m + d"

text \<open>The order of dates: by year, then month, then day.\<close>

fun date_le :: "cal_date \<Rightarrow> cal_date \<Rightarrow> bool" where
  "date_le (Date y m d) (Date y' m' d') =
     (y < y' \<or> (y = y' \<and> (m < m' \<or> (m = m' \<and> d \<le> d'))))"

text \<open>The day after, within the calendar.\<close>

fun next_day :: "cal_date \<Rightarrow> cal_date" where
  "next_day (Date y m d) =
     (if d < days_in_month y m then Date y m (d + 1)
      else if m < 12 then Date y (m + 1) 1
      else Date (y + 1) 1 1)"

subsection \<open>\<open>strftime("%Y-%m-%d")\<close> and \<open>strptime(s, "%Y-%m-%d")\<close>\<close>

text \<open>
  \<open>datetime.strftime\<close> hands the format to the \<open>strftime\<close> of the C library. With glibc
  (CPython 3.11 on Linux) \<open>%Y\<close> is the year as a plain decimal number, without padding:
  \<open>2024\<close>, and \<open>999\<close>, not \<open>0999\<close>, for the year 999. \<open>%m\<close> and \<open>%d\<close> are the month and the day
  in two digits each.
\<close>

definition digit_char :: "int \<Rightarrow> char" where
  "digit_char n = char_of (48 + n)"

definition zpad2 :: "int \<Rightarrow> string" where
  "zpad2 n = [digit_char (n div 10 mod 10), digit_char (n mod 10)]"

definition zpad4 :: "int \<Rightarrow> string" where
  "zpad4 n =
     [digit_char (n div 1000 mod 10), digit_char (n div 100 mod 10),
      digit_char (n div 10 mod 10), digit_char (n mod 10)]"

function decimal :: "int \<Rightarrow> string" where
  "decimal n =
     (if n < 10 then [digit_char n] else decimal (n div 10) @ [digit_char (n mod 10)])"
  by pat_completeness auto
termination by (relation "measure nat") auto

declare decimal.simps [simp del]

fun strftime_ymd :: "cal_date \<Rightarrow> string" where
  "strftime_ymd (Date y m d) = decimal y @ ''-'' @ zpad2 m @ ''-'' @ zpad2 d"

fun year :: "cal_date \<Rightarrow> int" where
  "year (Date y m d) = y"

text \<open>
  \<open>strptime\<close> matches the whole string against the pattern the format stands for,
  \<^verbatim>\<open>(?P<Y>\d\d\d\d)-(?P<m>1[0-2]|0[1-9]|[1-9])-(?P<d>3[0-1]|[1-2]\d|0[1-9]|[1-9]| [1-9])\<close>,
  from its first character on, then builds the date, and raises \<open>ValueError\<close> when the
  string does not match, when characters remain after the match, or when the numbers are
  no date. Each group is followed by a hyphen or by the end, so the alternative that the
  matcher takes first is the only one that can lead to a match: the groups are read from
  left to right without backtracking.
\<close>

definition digit_val :: "char \<Rightarrow> int" where
  "digit_val c = cp c - 48"

definition in_digits :: "int \<Rightarrow> int \<Rightarrow> char \<Rightarrow> bool" where
  "in_digits lo hi c = (48 + lo \<le> cp c \<and> cp c \<le> 48 + hi)"

fun parse_Y :: "string \<Rightarrow> (int \<times> string) option" where
  "parse_Y (a # b # c # d # rest) =
     (if is_digit a \<and> is_digit b \<and> is_digit c \<and> is_digit d
      then Some (1000 * digit_val a + 100 * digit_val b + 10 * digit_val c + digit_val d, rest)
      else None)"
| "parse_Y s = None"

fun parse_m :: "string \<Rightarrow> (int \<times> string) option" where
  "parse_m [] = None"
| "parse_m [a] = (if in_digits 1 9 a then Some (digit_val a, []) else None)"
| "parse_m (a # b # rest) =
     (if a = CHR ''1'' \<and> in_digits 0 2 b then Some (10 + digit_val b, rest)
      else if a = CHR ''0'' \<and> in_digits 1 9 b then Some (digit_val b, rest)
      else if in_digits 1 9 a then Some (digit_val a, b # rest)
      else None)"

fun parse_d :: "string \<Rightarrow> (int \<times> string) option" where
  "parse_d [] = None"
| "parse_d [a] = (if in_digits 1 9 a then Some (digit_val a, []) else None)"
| "parse_d (a # b # rest) =
     (if a = CHR ''3'' \<and> in_digits 0 1 b then Some (30 + digit_val b, rest)
      else if in_digits 1 2 a \<and> is_digit b then Some (10 * digit_val a + digit_val b, rest)
      else if a = CHR ''0'' \<and> in_digits 1 9 b then Some (digit_val b, rest)
      else if in_digits 1 9 a then Some (digit_val a, b # rest)
      else if a = CHR '' '' \<and> in_digits 1 9 b then Some (digit_val b, rest)
      else None)"

fun expect_hyphen :: "string \<Rightarrow> string option" where
  "expect_hyphen [] = None"
| "expect_hyphen (c # rest) = (if c = CHR ''-'' then Some rest else None)"

definition new_date :: "int \<Rightarrow> int \<Rightarrow> int \<Rightarrow> exn + cal_date" where
  "new_date y m d =
     (if \<not> (1 \<le> y \<and> y \<le> 9999) then Inl (ValueError ''year is out of range'')
      else if \<not> (1 \<le> m \<and> m \<le> 12) then Inl (ValueError ''month must be in 1..12'')
      else if \<not> (1 \<le> d \<and> d \<le> days_in_month y m)
        then Inl (ValueError ''day is out of range for month'')
      else Inr (Date y m d))"

definition strptime_ymd :: "string \<Rightarrow> exn + cal_date" where
  "strptime_ymd s =
     (case parse_Y s of
        None \<Rightarrow> Inl (ValueError ''time data does not match format'')
      | Some (y, s1) \<Rightarrow>
     (case expect_hyphen s1 of
        None \<Rightarrow> Inl (ValueError ''time data does not match format'')
      | Some s2 \<Rightarrow>
     (case parse_m s2 of
        None \<Rightarrow> Inl (ValueError ''time data does not match format'')
      | Some (m, s3) \<Rightarrow>
     (case expect_hyphen s3 of
        None \<Rightarrow> Inl (ValueError ''time data does not match format'')
      | Some s4 \<Rightarrow>
     (case parse_d s4 of
        None \<Rightarrow> Inl (ValueError ''time data does not match format'')
      | Some (d, s5) \<Rightarrow>
          if s5 \<noteq> [] then Inl (ValueError ''unconverted data remains'')
          else new_date y m d)))))"

text \<open>The shape \<open>YYYY-MM-DD\<close>: four digits, a hyphen, two digits, a hyphen, two digits.\<close>

fun is_ymd_string :: "string \<Rightarrow> bool" where
  "is_ymd_string [y1, y2, y3, y4, h1, m1, m2, h2, d1, d2] =
     (is_digit y1 \<and> is_digit y2 \<and> is_digit y3 \<and> is_digit y4 \<and> h1 = CHR ''-'' \<and>
      is_digit m1 \<and> is_digit m2 \<and> h2 = CHR ''-'' \<and> is_digit d1 \<and> is_digit d2)"
| "is_ymd_string s = False"

subsection \<open>\<open>to_ist_ymd\<close> (lines 58-70)\<close>

text \<open>
  \<^verbatim>\<open>
  def to_ist_ymd(dt_struct, fallback_today=True):
      if not dt_struct:
          if fallback_today:
              return datetime.now(IST).strftime("%Y-%m-%d")
          return None
      try:
          dt = datetime(*dt_struct[:6], tzinfo=timezone.utc).astimezone(IST)
          return dt.strftime("%Y-%m-%d")
      except Exception:
          if fallback_today:
              return datetime.now(IST).strftime("%Y-%m-%d")
          return None
  \<close>
  \<open>dt_struct\<close> is the time tuple of the feed parser (year, month, day, hour, minute, second
  and three more numbers) or \<open>None\<close>; \<open>None\<close> and the empty tuple are false. The clock is a
  parameter: \<open>now\<close> is the date \<open>datetime.now(IST)\<close> has.

  \<open>datetime(*args, tzinfo=utc)\<close> needs year, month and day (\<open>TypeError\<close> without them),
  takes a missing hour, minute or second as 0, and raises \<open>ValueError\<close> when a field is out
  of its range. \<open>astimezone(IST)\<close> is the same instant 5 hours 30 minutes later on the
  clock: the same day, or the next one when the time of day passes midnight; beyond
  9999-12-31 it raises \<open>OverflowError\<close>.
\<close>

definition field_or_0 :: "int list \<Rightarrow> nat \<Rightarrow> int" where
  "field_or_0 args i = (if i < length args then args ! i else 0)"

definition datetime_utc_astimezone_ist :: "int list \<Rightarrow> exn + cal_date" where
  "datetime_utc_astimezone_ist args =
     (if length args < 3 then Inl (TypeError ''function missing required argument'')
      else
        let y = args ! 0; m = args ! 1; d = args ! 2;
            hour = field_or_0 args 3; minute = field_or_0 args 4; second = field_or_0 args 5
        in case new_date y m d of
             Inl ex \<Rightarrow> Inl ex
           | Inr dt \<Rightarrow>
               if \<not> (0 \<le> hour \<and> hour \<le> 23) then Inl (ValueError ''hour must be in 0..23'')
               else if \<not> (0 \<le> minute \<and> minute \<le> 59)
                 then Inl (ValueError ''minute must be in 0..59'')
               else if \<not> (0 \<le> second \<and> second \<le> 59)
                 then Inl (ValueError ''second must be in 0..59'')
               else if hour * 3600 + minute * 60 + second + 19800 < 86400 then Inr dt
               else if dt = Date 9999 12 31 then Inl (OverflowError ''date value out of range'')
               else Inr (next_day dt))"

definition to_ist_ymd :: "cal_date \<Rightarrow> int list option \<Rightarrow> bool \<Rightarrow> string option" where
  "to_ist_ymd now dt_struct fallback_today =
     (case dt_struct of
        None \<Rightarrow> (if fallback_today then Some (strftime_ymd now) else None)
      | Some t \<Rightarrow>
          if t = [] then (if fallback_today then Some (strftime_ymd now) else None)
          else
            (case datetime_utc_astimezone_ist (take 6 t) of
               Inr dt \<Rightarrow> Some (strftime_ymd dt)
             | Inl ex \<Rightarrow> (if fallback_today then Some (strftime_ymd now) else None)))"

subsection \<open>\<open>within_days\<close> (lines 131-137)\<close>

text \<open>
  \<^verbatim>\<open>
  today_ist = datetime.now(IST).date()
  def within_days(dstr, n=14):
      try:
          dt = datetime.strptime(dstr, "%Y-%m-%d").date()
          return (today_ist - dt).days <= n
      except Exception:
          return True
  \<close>
  \<open>today_ist\<close> is the global the script reads once; it is a parameter here. \<open>strptime\<close> of
  \<open>None\<close> raises \<open>TypeError\<close>, which the handler catches like any other.
\<close>

definition within_days :: "cal_date \<Rightarrow> string option \<Rightarrow> int \<Rightarrow> bool" where
  "within_days today_ist dstr n =
     (case dstr of
        None \<Rightarrow> True
      | Some s \<Rightarrow>
          (case strptime_ymd s of
             Inl ex \<Rightarrow> True
           | Inr dt \<Rightarrow> toordinal today_ist - toordinal dt \<le> n))"

subsection \<open>Tag stripping and truncation (lines 117, 123)\<close>

text \<open>
  \<^verbatim>\<open>re.sub("<[^<]+?>", "", summary)\<close> deletes every match of the pattern, found from left to
  right. A match starts at a \<open><\<close>, takes one character that is not \<open><\<close>, then as few further
  characters other than \<open><\<close> as possible, and ends at the first \<open>></\<close> after that. When another
  \<open><\<close> or the end of the text comes first, there is no match at that \<open><\<close>: it stays and the
  scan goes on behind it. \<open>tag_end\<close> is given the text behind a \<open><\<close> and returns the text
  behind the match.
\<close>

fun tag_close :: "string \<Rightarrow> string option" where
  "tag_close [] = None"
| "tag_close (c # cs) =
     (if c = CHR ''>'' then Some cs else if c = CHR ''<'' then None else tag_close cs)"

fun tag_end :: "string \<Rightarrow> string option" where
  "tag_end [] = None"
| "tag_end (c # cs) = (if c = CHR ''<'' then None else tag_close cs)"

lemma tag_close_shorter: "tag_close cs = Some rest \<Longrightarrow> length rest < length cs"
  by (induction cs) (auto split: if_splits)

lemma tag_end_shorter: "tag_end cs = Some rest \<Longrightarrow> length rest < length cs"
  by (cases cs) (auto split: if_splits dest: tag_close_shorter)

function strip_tags :: "string \<Rightarrow> string" where
  "strip_tags [] = []"
| "strip_tags (c # cs) =
     (if c = CHR ''<'' then
        (case tag_end cs of
           Some rest \<Rightarrow> strip_tags rest
         | None \<Rightarrow> c # strip_tags cs)
      else c # strip_tags cs)"
  by pat_completeness auto
termination
  by (relation "measure length") (auto dest: tag_end_shorter)

text \<open>
  \<^verbatim>\<open>summary = (e.get("summary") or e.get("description") or "").strip()\<close> and
  \<^verbatim>\<open>"summary": re.sub("<[^<]+?>", "", summary)[:450]\<close>: the raw text is trimmed, the tags are
  deleted, and the first 450 characters are kept.
\<close>

definition normalize_summary :: "string \<Rightarrow> string" where
  "normalize_summary raw = take 450 (strip_tags (strip raw))"

subsection \<open>The host of a link: \<open>urlparse(link).netloc\<close>\<close>

text \<open>
  \<open>urllib.parse.urlsplit\<close>, as far as it decides \<open>netloc\<close> (CPython 3.11): leading characters
  up to U+0020 are dropped and every tab, carriage return and line feed is removed; a scheme
  (an ASCII letter, then letters, digits, \<open>+\<close>, \<open>-\<close>, \<open>.\<close>, up to the first colon) is split off;
  if the rest starts with \<open>//\<close>, the host part runs from there to the first \<open>/\<close>, \<open>?\<close> or \<open>#\<close>,
  otherwise it is empty. A host part with one of \<open>[\<close> and \<open>]\<close> but not the other raises
  \<open>ValueError\<close>; with both, the text between the first \<open>[\<close> and the next \<open>]\<close> is checked as an
  IP literal by the \<open>ipaddress\<close> module, whose verdict is the parameter \<open>bracketed_host_ok\<close>.
  (The later check of the host part under NFKC normalisation never raises for code points
  up to 255.)
\<close>

definition is_ascii_alpha :: "char \<Rightarrow> bool" where
  "is_ascii_alpha c = ((65 \<le> cp c \<and> cp c \<le> 90) \<or> (97 \<le> cp c \<and> cp c \<le> 122))"

definition is_scheme_char :: "char \<Rightarrow> bool" where
  "is_scheme_char c = (is_ascii_alpha c \<or> is_digit c \<or> c \<in> set ''+-.'')"

definition split_scheme :: "string \<Rightarrow> string" where
  "split_scheme url =
     (let scheme = takeWhile (\<lambda>c. c \<noteq> CHR '':'') url in
      if length scheme < length url \<and> scheme \<noteq> [] \<and> is_ascii_alpha (hd scheme) \<and>
         list_all is_scheme_char scheme
      then drop (length scheme + 1) url
      else url)"

definition bracketed_host :: "string \<Rightarrow> string" where
  "bracketed_host netloc =
     takeWhile (\<lambda>c. c \<noteq> CHR '']'') (drop 1 (dropWhile (\<lambda>c. c \<noteq> CHR ''['') netloc))"

definition urlparse_netloc :: "(string \<Rightarrow> bool) \<Rightarrow> string \<Rightarrow> exn + string" where
  "urlparse_netloc bracketed_host_ok link =
     (let url = split_scheme
                  (filter (\<lambda>c. cp c \<noteq> 9 \<and> cp c \<noteq> 13 \<and> cp c \<noteq> 10)
                     (dropWhile (\<lambda>c. cp c \<le> 32) link))
      in if take 2 url = ''//'' then
           (let netloc = takeWhile (\<lambda>c. c \<notin> set ''/?#'') (drop 2 url) in
            if (CHR ''['' \<in> set netloc \<and> CHR '']'' \<notin> set netloc) \<or>
               (CHR '']'' \<in> set netloc \<and> CHR ''['' \<notin> set netloc)
            then Inl (ValueError ''Invalid IPv6 URL'')
            else if CHR ''['' \<in> set netloc \<and> CHR '']'' \<in> set netloc \<and>
                    \<not> bracketed_host_ok (bracketed_host netloc)
            then Inl (ValueError ''invalid address in brackets'')
            else Inr netloc)
         else Inr [])"

text \<open>
  \<open>s.replace(old, new)\<close> for a non-empty \<open>old\<close>: every occurrence of \<open>old\<close>, found from left
  to right without overlap, is replaced by \<open>new\<close>. \<open>occurs old s\<close>: \<open>old\<close> occurs in \<open>s\<close>.
\<close>

fun str_replace :: "string \<Rightarrow> string \<Rightarrow> string \<Rightarrow> string" where
  "str_replace old new [] = []"
| "str_replace old new (c # cs) =
     (if old \<noteq> [] \<and> prefix old (c # cs)
      then new @ str_replace old new (drop (length old - 1) cs)
      else c # str_replace old new cs)"

fun occurs :: "string \<Rightarrow> string \<Rightarrow> bool" where
  "occurs old [] = (old = [])"
| "occurs old (c # cs) = (prefix old (c # cs) \<or> occurs old cs)"

subsection \<open>\<open>item_id\<close> (lines 105-107): UTF-8 and SHA-1\<close>

text \<open>
  \<^verbatim>\<open>
  def item_id(title, link):
      base = (title or "") + "|" + (link or "")
      return hashlib.sha1(base.encode("utf-8")).hexdigest()[:12]
  \<close>
  UTF-8 encodes a code point below 128 as one byte and a code point in 128..255 as two.
  SHA-1 is the function of FIPS 180: the message is padded with the byte 0x80, zero bytes
  and its length in bits as 64 bits, up to a multiple of 64 bytes; every block of sixteen
  big-endian 32-bit words is expanded to 80 words and run through 80 rounds; additions wrap
  at 32 bits. \<open>hexdigest\<close> prints the five state words in lower-case hexadecimal.
\<close>

type_synonym byte = "8 word"
type_synonym w32 = "32 word"

definition utf8_char :: "char \<Rightarrow> byte list" where
  "utf8_char c =
     (if cp c < 128 then [word_of_int (cp c)]
      else [word_of_int (192 + cp c div 64), word_of_int (128 + cp c mod 64)])"

definition utf8_encode :: "string \<Rightarrow> byte list" where
  "utf8_encode s = concat (map utf8_char s)"

definition be64 :: "64 word \<Rightarrow> byte list" where
  "be64 n = map (\<lambda>i. ucast (drop_bit (8 * i) n)) [7, 6, 5, 4, 3, 2, 1, 0]"

definition sha1_pad :: "byte list \<Rightarrow> byte list" where
  "sha1_pad msg =
     msg @ [0x80] @ replicate ((119 - length msg mod 64) mod 64) 0 @ be64 (8 * word_of_nat (length msg))"

definition be32 :: "byte list \<Rightarrow> w32" where
  "be32 bs = foldl (\<lambda>w b. push_bit 8 w OR ucast b) 0 bs"

fun words_of :: "nat \<Rightarrow> byte list \<Rightarrow> w32 list" where
  "words_of 0 bs = []"
| "words_of (Suc n) bs = be32 (take 4 bs) # words_of n (drop 4 bs)"

fun blocks_of :: "nat \<Rightarrow> byte list \<Rightarrow> w32 list list" where
  "blocks_of 0 bs = []"
| "blocks_of (Suc n) bs = words_of 16 (take 64 bs) # blocks_of n (drop 64 bs)"

definition rotl32 :: "nat \<Rightarrow> w32 \<Rightarrow> w32" where
  "rotl32 n w = push_bit n w OR drop_bit (32 - n) w"

text \<open>The message schedule, newest word first: \<open>W(t) = ROTL 1 (W(t-3) XOR W(t-8) XOR W(t-14) XOR W(t-16))\<close>.\<close>

fun schedule :: "nat \<Rightarrow> w32 list \<Rightarrow> w32 list" where
  "schedule 0 ws = ws"
| "schedule (Suc n) ws =
     schedule n (rotl32 1 (ws ! 2 XOR ws ! 7 XOR ws ! 13 XOR ws ! 15) # ws)"

definition sha1_f :: "nat \<Rightarrow> w32 \<Rightarrow> w32 \<Rightarrow> w32 \<Rightarrow> w32" where
  "sha1_f t b c d =
     (if t < 20 then (b AND c) OR (NOT b AND d)
      else if t < 40 then b XOR c XOR d
      else if t < 60 then (b AND c) OR (b AND d) OR (c AND d)
      else b XOR c XOR d)"

definition sha1_k :: "nat \<Rightarrow> w32" where
  "sha1_k t =
     (if t < 20 then 0x5A827999 else if t < 40 then 0x6ED9EBA1
      else if t < 60 then 0x8F1BBCDC else 0xCA62C1D6)"

type_synonym sha1_state = "w32 \<times> w32 \<times> w32 \<times> w32 \<times> w32"

fun sha1_round :: "sha1_state \<Rightarrow> nat \<times> w32 \<Rightarrow> sha1_state" where
  "sha1_round (a, b, c, d, e) (t, w) =
     (rotl32 5 a + sha1_f t b c d + e + sha1_k t + w, a, rotl32 30 b, c, d)"

fun sha1_block :: "sha1_state \<Rightarrow> w32 list \<Rightarrow> sha1_state" where
  "sha1_block (h0, h1, h2, h3, h4) block =
     (case foldl sha1_round (h0, h1, h2, h3, h4) (zip [0..<80] (rev (schedule 64 (rev block)))) of
        (a, b, c, d, e) \<Rightarrow> (h0 + a, h1 + b, h2 + c, h3 + d, h4 + e))"

definition sha1 :: "byte list \<Rightarrow> sha1_state" where
  "sha1 msg =
     (let padded = sha1_pad msg in
      foldl sha1_block (0x67452301, 0xEFCDAB89, 0x98BADCFE, 0x10325476, 0xC3D2E1F0)
        (blocks_of (length padded div 64) padded))"

definition hex_digit :: "w32 \<Rightarrow> char" where
  "hex_digit n = ''0123456789abcdef'' ! unat (n AND 15)"

definition hex32 :: "w32 \<Rightarrow> string" where
  "hex32 w = map (\<lambda>i. hex_digit (drop_bit (4 * i) w)) [7, 6, 5, 4, 3, 2, 1, 0]"

fun hexdigest :: "sha1_state \<Rightarrow> string" where
  "hexdigest (h0, h1, h2, h3, h4) = hex32 h0 @ hex32 h1 @ hex32 h2 @ hex32 h3 @ hex32 h4"

definition or_empty :: "string option \<Rightarrow> string" where
  "or_empty s = (case s of None \<Rightarrow> [] | Some t \<Rightarrow> t)"

definition item_id :: "string option \<Rightarrow> string option \<Rightarrow> string" where
  "item_id title link =
     (let base = or_empty title @ ''|'' @ or_empty link
      in take 12 (hexdigest (sha1 (utf8_encode base))))"

definition is_lower_hex :: "char \<Rightarrow> bool" where
  "is_lower_hex c = (c \<in> set ''0123456789abcdef'')"

subsection \<open>Records of the pipeline\<close>

text \<open>
  \<open>rec\<close> is the dictionary built per feed entry (lines 119-125); \<open>item\<close> is the dictionary
  written to \<open>items.json\<close> (lines 145-156). The date is whatever \<open>to_ist_ymd\<close> returned, a
  string or \<open>None\<close>. The field \<open>why\<close> of an item, a constant text looked up from the category,
  plays no part in any property below and is left out.
\<close>

record rec =
  rec_feed_name :: string
  rec_title :: string
  rec_link :: string
  rec_summary :: string
  rec_date :: "string option"

record item =
  it_id :: string
  it_date :: "string option"
  it_category :: string
  it_title :: string
  it_source :: string
  it_link :: string
  it_summary :: string
  it_prelims :: "string list"
  it_tags :: "string list"

subsection \<open>Recency filter (line 139)\<close>

text \<open>\<^verbatim>\<open>entries = [e for e in entries if within_days(e["date"], 14)]\<close>\<close>

definition filter_recent :: "cal_date \<Rightarrow> rec list \<Rightarrow> rec list" where
  "filter_recent today_ist entries = filter (\<lambda>e. within_days today_ist (rec_date e) 14) entries"

subsection \<open>Dedup (lines 159-166)\<close>

text \<open>
  \<^verbatim>\<open>
  seen = set()
  deduped = []
  for it in items:
      key = (it["title"], it["link"])
      if key in seen: continue
      seen.add(key)
      deduped.append(it)
  \<close>
  The loop threads \<open>seen\<close> and \<open>deduped\<close>; the model passes both along.
\<close>

definition key :: "item \<Rightarrow> string \<times> string" where
  "key it = (it_title it, it_link it)"

fun dedup_loop :: "(string \<times> string) set \<Rightarrow> item list \<Rightarrow> item list \<Rightarrow> item list" where
  "dedup_loop seen deduped [] = deduped"
| "dedup_loop seen deduped (it # items) =
     (if key it \<in> seen then dedup_loop seen deduped items
      else dedup_loop (insert (key it) seen) (deduped @ [it]) items)"

definition dedup :: "item list \<Rightarrow> item list" where
  "dedup items = dedup_loop {} [] items"

subsection \<open>Sort (line 169)\<close>

text \<open>
  \<^verbatim>\<open>deduped.sort(key=lambda it: (it["date"], it["category"], it["title"]), reverse=True)\<close>

  Python compares the key tuples lexicographically. \<open>list.sort\<close> is stable, and with
  \<open>reverse=True\<close> it still keeps items of equal keys in their original order: it reverses
  the list, sorts it ascending and stably, and reverses the result. The output of a stable
  sort is determined by the input and the key, so the insertion sort \<^const>\<open>sort_key\<close> stands
  for it. Comparing \<open>None\<close> with a string raises \<open>TypeError\<close>; a sort that had to order both
  a \<open>None\<close> date and a string date meets that comparison.
\<close>

definition sort_key_of :: "item \<Rightarrow> string option \<times> string \<times> string" where
  "sort_key_of it = (it_date it, it_category it, it_title it)"

definition sort_items :: "item list \<Rightarrow> exn + item list" where
  "sort_items deduped =
     (if list_ex (\<lambda>it. it_date it = None) deduped \<and> list_ex (\<lambda>it. it_date it \<noteq> None) deduped
      then Inl (TypeError ''not supported between instances of NoneType and str'')
      else Inr (rev (sort_key sort_key_of (rev deduped))))"

text \<open>
  An entry as the feed parser returns it: a dictionary whose keys may be missing
  (\<open>None\<close> here). A feed source of \<open>FEEDS\<close>.
\<close>

record raw_entry =
  raw_title :: "string option"
  raw_link :: "string option"
  raw_summary :: "string option"
  raw_description :: "string option"
  published_parsed :: "int list option"
  updated_parsed :: "int list option"

record feed =
  f_name :: string
  f_url :: string
  f_default_category :: string

definition FEEDS :: "feed list" where
  "FEEDS =
     [\<lparr>f_name = ''PIB Press Releases (English)'',
       f_url = ''https://pib.gov.in/RssMain.aspx?ModId=6&Lang=1&Regid=3'',
       f_default_category = ''Governance''\<rparr>]"

subsection \<open>\<open>prelims_facts\<close> (lines 96-103)\<close>

text \<open>
  \<^verbatim>\<open>
  def prelims_facts(entry, date_str):
      out = [f"Source: {entry.get('feed_name','')}",
             f"Date: {date_str}"]
      netloc = urlparse(entry.get('link','')).netloc.replace('www.','')
      if netloc:
          out.append(f"Domain: {netloc}")
      return out
  \<close>
  An f-string prints \<open>None\<close> as the text \<open>None\<close>.
\<close>

definition fmt_date :: "string option \<Rightarrow> string" where
  "fmt_date date_str = (case date_str of None \<Rightarrow> ''None'' | Some d \<Rightarrow> d)"

definition prelims_facts :: "(string \<Rightarrow> bool) \<Rightarrow> rec \<Rightarrow> string option \<Rightarrow> exn + string list" where
  "prelims_facts bracketed_host_ok entry date_str =
     (let out = [''Source: '' @ rec_feed_name entry, ''Date: '' @ fmt_date date_str] in
      case urlparse_netloc bracketed_host_ok (rec_link entry) of
        Inl ex \<Rightarrow> Inl ex
      | Inr host \<Rightarrow>
          (let netloc = str_replace ''www.'' [] host in
           if netloc \<noteq> [] then Inr (out @ [''Domain: '' @ netloc]) else Inr out))"

text \<open>
  The list the specification describes, for a link whose host component is \<open>host\<close>: the
  Domain line exactly when the host is non-empty, with only a leading \<open>www.\<close> removed.
\<close>

definition without_leading_www :: "string \<Rightarrow> string" where
  "without_leading_www host = (if prefix ''www.'' host then drop 4 host else host)"

definition prelims_as_specified :: "string \<Rightarrow> string option \<Rightarrow> string \<Rightarrow> string list" where
  "prelims_as_specified feed_name date_str host =
     [''Source: '' @ feed_name, ''Date: '' @ fmt_date date_str]
       @ (if host \<noteq> [] then [''Domain: '' @ without_leading_www host] else [])"

subsection \<open>Loading the feeds (lines 110-128)\<close>

text \<open>
  \<^verbatim>\<open>
  entries = []
  for f in FEEDS:
      try:
          d = feedparser.parse(f["url"])
          for e in d.entries:
              title = e.get("title","").strip()
              link  = e.get("link","").strip()
              summary = (e.get("summary") or e.get("description") or "").strip()
              date_str = to_ist_ymd(e.get("published_parsed") or e.get("updated_parsed"))
              rec = {...}
              entries.append(rec)
      except Exception as ex:
          print(f"[WARN] Failed {f['name']}: {ex}", file=sys.stderr)
  \<close>
  The network is a parameter: \<open>parse url\<close> is what \<open>feedparser.parse(url).entries\<close> gives, a
  list of entries or the exception it raises. The state of the loop is the list \<open>entries\<close>
  and the lines written to \<open>stderr\<close>. \<open>a or b\<close> is \<open>a\<close> unless \<open>a\<close> is \<open>None\<close> or empty.
\<close>

definition or_else :: "'a list option \<Rightarrow> 'a list option \<Rightarrow> 'a list option" where
  "or_else a b = (case a of None \<Rightarrow> b | Some x \<Rightarrow> if x = [] then b else a)"

definition make_rec :: "cal_date \<Rightarrow> feed \<Rightarrow> raw_entry \<Rightarrow> rec" where
  "make_rec now f e =
     (let title = strip (or_empty (raw_title e));
          link = strip (or_empty (raw_link e));
          summary = or_empty (or_else (or_else (raw_summary e) (raw_description e)) (Some []));
          date_str = to_ist_ymd now (or_else (published_parsed e) (updated_parsed e)) True
      in \<lparr>rec_feed_name = f_name f, rec_title = title, rec_link = link,
          rec_summary = normalize_summary summary, rec_date = date_str\<rparr>)"

definition warn_line :: "feed \<Rightarrow> exn \<Rightarrow> string" where
  "warn_line f ex = ''[WARN] Failed '' @ f_name f @ '': '' @ str_ex ex"

fun append_entries :: "cal_date \<Rightarrow> feed \<Rightarrow> raw_entry list \<Rightarrow> rec list \<Rightarrow> rec list" where
  "append_entries now f [] entries = entries"
| "append_entries now f (e # es) entries = append_entries now f es (entries @ [make_rec now f e])"

fun load_feeds ::
  "cal_date \<Rightarrow> (string \<Rightarrow> exn + raw_entry list) \<Rightarrow> feed list \<Rightarrow> rec list \<times> string list
   \<Rightarrow> rec list \<times> string list" where
  "load_feeds now parse [] (entries, stderr) = (entries, stderr)"
| "load_feeds now parse (f # fs) (entries, stderr) =
     (case parse (f_url f) of
        Inr es \<Rightarrow> load_feeds now parse fs (append_entries now f es entries, stderr)
      | Inl ex \<Rightarrow> load_feeds now parse fs (entries, stderr @ [warn_line f ex]))"

text \<open>What one feed contributes: its entries, and its line on \<open>stderr\<close>.\<close>

definition entries_of_feed :: "cal_date \<Rightarrow> (string \<Rightarrow> exn + raw_entry list) \<Rightarrow> feed \<Rightarrow> rec list" where
  "entries_of_feed now parse f =
     (case parse (f_url f) of Inl ex \<Rightarrow> [] | Inr es \<Rightarrow> map (make_rec now f) es)"

definition warnings_of_feed :: "(string \<Rightarrow> exn + raw_entry list) \<Rightarrow> feed \<Rightarrow> string list" where
  "warnings_of_feed parse f =
     (case parse (f_url f) of Inl ex \<Rightarrow> [warn_line f ex] | Inr es \<Rightarrow> [])"

subsection \<open>Building the items (lines 141-157) and the whole run\<close>

definition make_item :: "(string \<Rightarrow> bool) \<Rightarrow> rec \<Rightarrow> exn + item" where
  "make_item bracketed_host_ok e =
     (let cat = classify (rec_title e) (rec_summary e) (rec_feed_name e) in
      case prelims_facts bracketed_host_ok e (rec_date e) of
        Inl ex \<Rightarrow> Inl ex
      | Inr pre \<Rightarrow>
          Inr \<lparr>it_id = item_id (Some (rec_title e)) (Some (rec_link e)),
               it_date = rec_date e, it_category = cat, it_title = rec_title e,
               it_source = rec_feed_name e, it_link = rec_link e,
               it_summary = rec_summary e, it_prelims = pre, it_tags = []\<rparr>)"

fun make_items :: "(string \<Rightarrow> bool) \<Rightarrow> rec list \<Rightarrow> item list \<Rightarrow> exn + item list" where
  "make_items bracketed_host_ok [] items = Inr items"
| "make_items bracketed_host_ok (e # es) items =
     (case make_item bracketed_host_ok e of
        Inl ex \<Rightarrow> Inl ex
      | Inr it \<Rightarrow> make_items bracketed_host_ok es (items @ [it]))"

text \<open>
  The run: what is written to \<open>stderr\<close> while loading, and the list written to
  \<open>items.json\<close>, or the exception that ends the script (an exception outside the
  \<open>try\<close> of the loading loop is not caught).
\<close>

definition run ::
  "cal_date \<Rightarrow> cal_date \<Rightarrow> (string \<Rightarrow> bool) \<Rightarrow> (string \<Rightarrow> exn + raw_entry list) \<Rightarrow> feed list
   \<Rightarrow> string list \<times> (exn + item list)" where
  "run now today_ist bracketed_host_ok parse feeds =
     (case load_feeds now parse feeds ([], []) of
        (entries, stderr) \<Rightarrow>
          (stderr,
           case make_items bracketed_host_ok (filter_recent today_ist entries) [] of
             Inl ex \<Rightarrow> Inl ex
           | Inr items \<Rightarrow> sort_items (dedup items)))"

subsection \<open>Sample data\<close>

text \<open>An item with a given date, category, title and link, for concrete runs of the stages.\<close>

definition sample_item :: "string \<Rightarrow> string \<Rightarrow> string \<Rightarrow> string \<Rightarrow> item" where
  "sample_item d c t l =
     \<lparr>it_id = [], it_date = Some d, it_category = c, it_title = t, it_source = [],
      it_link = l, it_summary = [], it_prelims = [], it_tags = []\<rparr>"

text \<open>An entry record with a given title, link and date.\<close>

definition sample_rec :: "string \<Rightarrow> string \<Rightarrow> string option \<Rightarrow> rec" where
  "sample_rec t l d =
     \<lparr>rec_feed_name = ''PIB'', rec_title = t, rec_link = l, rec_summary = [], rec_date = d\<rparr>"

text \<open>A feed entry, two feed sources and a network in which the first source is down.\<close>

definition sample_entry :: "string \<Rightarrow> string \<Rightarrow> int list \<Rightarrow> raw_entry" where
  "sample_entry t l ts =
     \<lparr>raw_title = Some t, raw_link = Some l, raw_summary = None, raw_description = None,
      published_parsed = Some ts, updated_parsed = None\<rparr>"

definition sample_feed :: "string \<Rightarrow> string \<Rightarrow> feed" where
  "sample_feed n u = \<lparr>f_name = n, f_url = u, f_default_category = ''Governance''\<rparr>"

definition sample_parse :: "string \<Rightarrow> exn + raw_entry list" where
  "sample_parse u =
     (if u = ''https://down.example/rss'' then Inl (Exception ''connection refused'')
      else Inr [sample_entry ''RBI hikes repo rate by 25 bps'' ''https://pib.gov.in/x''
                  [2024, 3, 13, 6, 0, 0, 2, 73, 0]])"

text \<open>The entry of the sample network as a record, and the item the run makes of it.\<close>

definition sample_rec_rbi :: "string \<Rightarrow> string option \<Rightarrow> rec" where
  "sample_rec_rbi s d =
     \<lparr>rec_feed_name = ''PIB'', rec_title = ''RBI hikes repo rate by 25 bps'',
      rec_link = ''https://pib.gov.in/x'', rec_summary = s, rec_date = d\<rparr>"

definition sample_item_rbi :: "string \<Rightarrow> string \<Rightarrow> item" where
  "sample_item_rbi s d =
     \<lparr>it_id = ''579a65972b5d'', it_date = Some d, it_category = ''Economy'',
      it_title = ''RBI hikes repo rate by 25 bps'', it_source = ''PIB'',
      it_link = ''https://pib.gov.in/x'', it_summary = s,
      it_prelims = [''Source: PIB'', ''Date: '' @ d, ''Domain: pib.gov.in''], it_tags = []\<rparr>"

section \<open>Properties\<close>

subsection \<open>Classification\<close>













subsection \<open>Calendar arithmetic\<close>

lemma div_pred:
  fixes y n :: int
  assumes "0 < n"
  shows "y div n = (y - 1) div n + (if y mod n = 0 then 1 else 0)"
proof (cases "y mod n = 0")
  case True
  have "y = n * (y div n) + y mod n" by simp
  with True have "y - 1 = n * (y div n - 1) + (n - 1)" by (simp add: algebra_simps)
  then have "(y - 1) div n = y div n - 1"
    by (rule int_div_pos_eq) (use assms in auto)
  with True show ?thesis by simp
next
  case False
  have r: "0 \<le> y mod n" "y mod n < n" using assms by simp_all
  have "y - 1 = n * (y div n) + (y mod n - 1)" by simp
  then have "(y - 1) div n = y div n"
    by (rule int_div_pos_eq) (use r False in auto)
  with False show ?thesis by simp
qed

lemma leap_arith:
  fixes y p4 p100 p400 q4 q100 q400 :: int
  assumes "q4 = p4 + (if c4 then 1 else 0)"
    and "q100 = p100 + (if c100 then 1 else 0)"
    and "q400 = p400 + (if c400 then 1 else 0)"
    and "c400 \<Longrightarrow> c100" and "c100 \<Longrightarrow> c4"
  shows "y * 365 + q4 - q100 + q400 =
         (y - 1) * 365 + p4 - p100 + p400 + 365 + (if c4 \<and> (\<not> c100 \<or> c400) then 1 else 0)"
  using assms by (cases c4; cases c100; cases c400) (simp_all add: algebra_simps)

lemma dvd_mod_0:
  fixes y :: int
  assumes "y mod a = 0" and "b dvd a"
  shows "y mod b = 0"
proof -
  from assms(1) have "a dvd y" by (simp add: mod_eq_0_iff_dvd)
  with assms(2) have "b dvd y" using dvd_trans by blast
  then show ?thesis by simp
qed

lemma days_before_year_Suc:
  "days_before_year (y + 1) = days_before_year y + 365 + (if is_leap y then 1 else 0)"
proof -
  have a: "y mod 100 = 0" if "y mod 400 = 0"
    using that by (rule dvd_mod_0) simp
  have b: "y mod 4 = 0" if "y mod 100 = 0"
    using that by (rule dvd_mod_0) simp
  have "y * 365 + y div 4 - y div 100 + y div 400 =
         (y - 1) * 365 + (y - 1) div 4 - (y - 1) div 100 + (y - 1) div 400 + 365 +
         (if y mod 4 = 0 \<and> (\<not> y mod 100 = 0 \<or> y mod 400 = 0) then 1 else 0)"
    by (rule leap_arith [OF div_pred div_pred div_pred a b]) simp_all
  then show ?thesis
    unfolding days_before_year_def is_leap_def by (simp only: add_diff_cancel_right')
qed

lemma days_before_year_mono: "y \<le> y' \<Longrightarrow> days_before_year y \<le> days_before_year y'"
proof -
  have "days_before_year y \<le> days_before_year (y + int k)" for k
  proof (induction k)
    case 0
    show ?case by simp
  next
    case (Suc k)
    have "days_before_year (y + int k) \<le> days_before_year (y + int k + 1)"
      by (simp add: days_before_year_Suc)
    with Suc show ?case by (simp add: ac_simps)
  qed
  from this [of "nat (y' - y)"] show "y \<le> y' \<Longrightarrow> ?thesis" by simp
qed

lemma month_cases:
  fixes m :: int
  assumes "1 \<le> m" "m \<le> 12"
  shows "m = 1 \<or> m = 2 \<or> m = 3 \<or> m = 4 \<or> m = 5 \<or> m = 6 \<or>
         m = 7 \<or> m = 8 \<or> m = 9 \<or> m = 10 \<or> m = 11 \<or> m = 12"
  using assms by arith

lemma days_before_month_Suc:
  assumes "1 \<le> m" "m < 12"
  shows "days_before_month y (m + 1) = days_before_month y m + days_in_month y m"
proof -
  from month_cases [of m] assms
  have "m = 1 \<or> m = 2 \<or> m = 3 \<or> m = 4 \<or> m = 5 \<or> m = 6 \<or>
         m = 7 \<or> m = 8 \<or> m = 9 \<or> m = 10 \<or> m = 11 \<or> m = 12" by simp
  then show ?thesis
    using assms by (elim disjE) (simp_all add: days_before_month_def days_in_month_def)
qed

lemma days_before_month_12:
  "days_before_month y 12 + days_in_month y 12 = 365 + (if is_leap y then 1 else 0)"
  by (simp add: days_before_month_def days_in_month_def)

lemma days_in_month_pos:
  assumes "1 \<le> m" "m \<le> 12"
  shows "28 \<le> days_in_month y m \<and> days_in_month y m \<le> 31"
proof -
  from month_cases [of m] assms
  have "m = 1 \<or> m = 2 \<or> m = 3 \<or> m = 4 \<or> m = 5 \<or> m = 6 \<or>
         m = 7 \<or> m = 8 \<or> m = 9 \<or> m = 10 \<or> m = 11 \<or> m = 12" by simp
  then show ?thesis
    by (elim disjE) (simp_all add: days_in_month_def)
qed

lemma days_before_month_nonneg:
  assumes "1 \<le> m" "m \<le> 12"
  shows "0 \<le> days_before_month y m"
proof -
  from month_cases [of m] assms
  have "m = 1 \<or> m = 2 \<or> m = 3 \<or> m = 4 \<or> m = 5 \<or> m = 6 \<or>
         m = 7 \<or> m = 8 \<or> m = 9 \<or> m = 10 \<or> m = 11 \<or> m = 12" by simp
  then show ?thesis
    by (elim disjE) (simp_all add: days_before_month_def)
qed

lemma days_before_month_mono:
  assumes "1 \<le> m" "m \<le> m'" "m' \<le> 12"
  shows "days_before_month y m \<le> days_before_month y m'"
proof -
  have "days_before_month y m \<le> days_before_month y (m + int k)" if "m + int k \<le> 12" for k
    using that
  proof (induction k)
    case 0
    show ?case by simp
  next
    case (Suc k)
    then have "days_before_month y m \<le> days_before_month y (m + int k)" by simp
    also have "\<dots> \<le> days_before_month y (m + int k) + days_in_month y (m + int k)"
      using days_in_month_pos [of "m + int k" y] assms(1) Suc.prems by simp
    also have "\<dots> = days_before_month y (m + int k + 1)"
      using days_before_month_Suc [of "m + int k" y] assms(1) Suc.prems by simp
    finally show ?case by (simp add: ac_simps)
  qed
  from this [of "nat (m' - m)"] assms show ?thesis by simp
qed

lemma next_day_ordinal:
  "valid_date dt \<Longrightarrow> toordinal (next_day dt) = toordinal dt + 1"
proof (cases dt)
  case (Date y m d)
  assume v: "valid_date dt"
  show ?thesis
  proof (cases "d < days_in_month y m")
    case True
    with Date show ?thesis by simp
  next
    case False
    with v Date have d: "d = days_in_month y m" by simp
    show ?thesis
    proof (cases "m < 12")
      case True
      with v Date d days_before_month_Suc [of m y] show ?thesis
        by (simp add: days_before_month_def [of y 1])
    next
      case False
      with v Date have "m = 12" by simp
      with d Date days_before_year_Suc [of y] days_before_month_12 [of y] show ?thesis
        by (simp add: days_before_month_def [of "y + 1" 1])
    qed
  qed
qed

lemma next_day_valid:
  "valid_date dt \<Longrightarrow> dt \<noteq> Date 9999 12 31 \<Longrightarrow> valid_date (next_day dt)"
proof (cases dt)
  case (Date y m d)
  assume v: "valid_date dt" and n: "dt \<noteq> Date 9999 12 31"
  show ?thesis
  proof (cases "d < days_in_month y m")
    case True
    with v Date show ?thesis by simp
  next
    case False
    with v Date have d: "d = days_in_month y m" by simp
    show ?thesis
    proof (cases "m < 12")
      case True
      with v Date d days_in_month_pos [of "m + 1" y] show ?thesis by simp
    next
      case False
      with v Date have m: "m = 12" by simp
      with d have "d = 31" by (simp add: days_in_month_def)
      with n Date m v have "y < 9999" by (cases "y = 9999") simp_all
      with v Date m d show ?thesis by (simp add: days_in_month_def)
    qed
  qed
qed

lemma ordinal_in_year:
  assumes "valid_date (Date y m d)"
  shows "1 \<le> days_before_month y m + d"
    and "days_before_month y m + d \<le> 365 + (if is_leap y then 1 else 0)"
proof -
  from assms have m: "1 \<le> m" "m \<le> 12" and d: "1 \<le> d" "d \<le> days_in_month y m" by simp_all
  from days_before_month_nonneg [OF m, of y] d show "1 \<le> days_before_month y m + d" by simp
  have "days_before_month y m + d \<le> days_before_month y m + days_in_month y m"
    using d by simp
  also have "\<dots> \<le> days_before_month y 12 + days_in_month y 12"
  proof (cases "m = 12")
    case True
    then show ?thesis by simp
  next
    case False
    with m have "m < 12" by simp
    with days_before_month_Suc [of m y] m
    have "days_before_month y m + days_in_month y m = days_before_month y (m + 1)" by simp
    also have "\<dots> \<le> days_before_month y 12"
      using m \<open>m < 12\<close> by (intro days_before_month_mono) simp_all
    also have "\<dots> \<le> days_before_month y 12 + days_in_month y 12"
      using days_in_month_pos [of 12 y] by simp
    finally show ?thesis .
  qed
  also have "\<dots> = 365 + (if is_leap y then 1 else 0)" by (rule days_before_month_12)
  finally show "days_before_month y m + d \<le> 365 + (if is_leap y then 1 else 0)" .
qed

lemma toordinal_mono:
  assumes le: "date_le a b" and va: "valid_date a" and vb: "valid_date b"
  shows "toordinal a \<le> toordinal b"
proof -
  obtain y m d where a: "a = Date y m d" by (cases a)
  obtain y' m' d' where b: "b = Date y' m' d'" by (cases b)
  from va a have ma: "1 \<le> m" "m \<le> 12" and da: "1 \<le> d" "d \<le> days_in_month y m" by simp_all
  from vb b have mb: "1 \<le> m'" "m' \<le> 12" and db: "1 \<le> d'" "d' \<le> days_in_month y' m'" by simp_all
  consider "y < y'" | "y = y'" "m < m'" | "y = y'" "m = m'" "d \<le> d'"
    using le a b by auto
  then show ?thesis
  proof cases
    case 1
    have "toordinal a \<le> days_before_year (y + 1)"
      using ordinal_in_year(2) [of y m d] va a days_before_year_Suc [of y] by simp
    also have "\<dots> \<le> days_before_year y'"
      using 1 by (intro days_before_year_mono) simp
    also have "\<dots> \<le> toordinal b"
      using ordinal_in_year(1) [of y' m' d'] vb b by simp
    finally show ?thesis .
  next
    case 2
    have "days_before_month y m + d \<le> days_before_month y m + days_in_month y m"
      using da by simp
    also have "\<dots> = days_before_month y (m + 1)"
      using days_before_month_Suc [of m y] ma 2 mb by simp
    also have "\<dots> \<le> days_before_month y m'"
      using ma mb 2 by (intro days_before_month_mono) simp_all
    finally show ?thesis using a b 2 db by simp
  next
    case 3
    then show ?thesis using a b by simp
  qed
qed

subsection \<open>Printing and parsing dates\<close>

lemma cp_digit_char: "0 \<le> n \<Longrightarrow> n \<le> 9 \<Longrightarrow> cp (digit_char n) = 48 + n"
  by (simp add: cp_def digit_char_def)

lemma cp_inject: "cp a = cp b \<Longrightarrow> a = b"
  by (simp add: cp_def)

lemma cp_literals:
  "cp CHR ''0'' = 48" "cp CHR ''1'' = 49" "cp CHR ''3'' = 51" "cp CHR ''-'' = 45" "cp CHR '' '' = 32"
  by (simp_all add: cp_def)

lemma digit_char_eq_iff:
  assumes "0 \<le> n" "n \<le> 9"
  shows "(digit_char n = c) = (cp c = 48 + n)"
  using cp_digit_char [OF assms] cp_inject [of "digit_char n" c] by auto

lemma digit_char_props:
  assumes "0 \<le> n" "n \<le> 9"
  shows "is_digit (digit_char n)" and "digit_val (digit_char n) = n"
    and "in_digits lo hi (digit_char n) = (lo \<le> n \<and> n \<le> hi)"
    and "(digit_char n = CHR ''0'') = (n = 0)"
    and "(digit_char n = CHR ''1'') = (n = 1)"
    and "(digit_char n = CHR ''3'') = (n = 3)"
    and "digit_char n \<noteq> CHR ''-''" and "digit_char n \<noteq> CHR '' ''"
proof -
  note c = cp_digit_char [OF assms]
  show "is_digit (digit_char n)" using assms by (simp add: is_digit_def c)
  show "digit_val (digit_char n) = n" by (simp add: digit_val_def c)
  show "in_digits lo hi (digit_char n) = (lo \<le> n \<and> n \<le> hi)" by (simp add: in_digits_def c)
  show "(digit_char n = CHR ''0'') = (n = 0)"
    by (simp add: digit_char_eq_iff [OF assms] cp_literals)
  show "(digit_char n = CHR ''1'') = (n = 1)"
    by (simp add: digit_char_eq_iff [OF assms] cp_literals)
  show "(digit_char n = CHR ''3'') = (n = 3)"
    by (simp add: digit_char_eq_iff [OF assms] cp_literals)
  show "digit_char n \<noteq> CHR ''-''"
    using assms by (simp add: digit_char_eq_iff [OF assms] cp_literals)
  show "digit_char n \<noteq> CHR '' ''"
    using assms by (simp add: digit_char_eq_iff [OF assms] cp_literals)
qed

lemma digits4:
  fixes y q1 q2 q3 r0 r1 r2 :: int
  assumes "y = 10 * q1 + r0" "q1 = 10 * q2 + r1" "q2 = 10 * q3 + r2"
  shows "1000 * q3 + 100 * r2 + 10 * r1 + r0 = y"
  using assms by simp

lemma parse_Y_zpad4:
  assumes "0 \<le> y" "y \<le> 9999"
  shows "parse_Y (zpad4 y @ rest) = Some (y, rest)"
proof -
  have q3: "y div 1000 mod 10 = y div 1000"
  proof -
    have "0 \<le> y div 1000" using assms(1) by simp
    moreover have "y div 1000 < 10" using assms(2) by simp
    ultimately show ?thesis by simp
  qed
  have e0: "y = 10 * (y div 10) + y mod 10" by simp
  have e1: "y div 10 = 10 * (y div 100) + y div 10 mod 10"
    using zdiv_zmult2_eq [of 10 y 10] by simp
  have e2: "y div 100 = 10 * (y div 1000) + y div 100 mod 10"
    using zdiv_zmult2_eq [of 10 y 100] by simp
  have v: "1000 * (y div 1000) + 100 * (y div 100 mod 10) + 10 * (y div 10 mod 10) + y mod 10 = y"
    by (rule digits4 [OF e0 e1 e2])
  have d: "0 \<le> y div 1000" "y div 1000 \<le> 9" "0 \<le> y div 100 mod 10"
    "y div 100 mod 10 \<le> 9" "0 \<le> y div 10 mod 10" "y div 10 mod 10 \<le> 9"
    "0 \<le> y mod 10" "y mod 10 \<le> 9"
    using assms by simp_all
  show ?thesis
    unfolding zpad4_def q3
    by (simp add: digit_char_props(1,2) [OF d(1,2)] digit_char_props(1,2) [OF d(3,4)]
        digit_char_props(1,2) [OF d(5,6)] digit_char_props(1,2) [OF d(7,8)] v)
qed

lemma parse_m_zpad2:
  assumes "1 \<le> m" "m \<le> 12"
  shows "parse_m (zpad2 m @ CHR ''-'' # rest) = Some (m, CHR ''-'' # rest)"
proof -
  from month_cases [OF assms]
  show ?thesis
    by (elim disjE) (simp_all add: zpad2_def digit_char_props)
qed

lemma day_cases:
  fixes d :: int
  assumes "1 \<le> d" "d \<le> 31"
  shows "d = 1 \<or> d = 2 \<or> d = 3 \<or> d = 4 \<or> d = 5 \<or> d = 6 \<or> d = 7 \<or> d = 8 \<or> d = 9 \<or> d = 10 \<or>
    d = 11 \<or> d = 12 \<or> d = 13 \<or> d = 14 \<or> d = 15 \<or> d = 16 \<or> d = 17 \<or> d = 18 \<or> d = 19 \<or>
    d = 20 \<or> d = 21 \<or> d = 22 \<or> d = 23 \<or> d = 24 \<or> d = 25 \<or> d = 26 \<or> d = 27 \<or> d = 28 \<or>
    d = 29 \<or> d = 30 \<or> d = 31"
  using assms by arith

lemma parse_d_zpad2:
  assumes "1 \<le> d" "d \<le> 31"
  shows "parse_d (zpad2 d) = Some (d, [])"
proof -
  from day_cases [OF assms]
  show ?thesis
    by (elim disjE) (simp_all add: zpad2_def digit_char_props)
qed

lemma decimal_digit: "n < 10 \<Longrightarrow> decimal n = [digit_char n]"
  by (simp add: decimal.simps [of n])

lemma decimal_step: "10 \<le> n \<Longrightarrow> decimal n = decimal (n div 10) @ [digit_char (n mod 10)]"
  by (simp add: decimal.simps [of n])

lemma decimal_zpad4:
  assumes "1000 \<le> y" "y \<le> 9999"
  shows "decimal y = zpad4 y"
proof -
  have a: "10 \<le> y" "10 \<le> y div 10" "10 \<le> y div 100" "y div 1000 < 10"
    using assms by simp_all
  have e1: "y div 10 div 10 = y div 100" using zdiv_zmult2_eq [of 10 y 10] by simp
  have e2: "y div 100 div 10 = y div 1000" using zdiv_zmult2_eq [of 10 y 100] by simp
  have q: "y div 1000 mod 10 = y div 1000" using assms by simp
  have "decimal y = decimal (y div 10) @ [digit_char (y mod 10)]"
    using a(1) by (rule decimal_step)
  also have "decimal (y div 10) = decimal (y div 100) @ [digit_char (y div 10 mod 10)]"
    using decimal_step [OF a(2)] by (simp only: e1)
  also have "decimal (y div 100) = decimal (y div 1000) @ [digit_char (y div 100 mod 10)]"
    using decimal_step [OF a(3)] by (simp only: e2)
  also have "decimal (y div 1000) = [digit_char (y div 1000)]"
    using a(4) by (rule decimal_digit)
  finally show ?thesis by (simp add: zpad4_def q)
qed

lemma decimal_length_below_1000:
  assumes "y < 1000"
  shows "0 < length (decimal y)" and "length (decimal y) < 4"
proof -
  have s: "length (decimal n) = 1" if "n < 10" for n
    using that by (simp add: decimal_digit)
  have t: "0 < length (decimal n) \<and> length (decimal n) \<le> 2" if "n < 100" for n
  proof (cases "n < 10")
    case True
    then show ?thesis by (simp add: s)
  next
    case False
    with that have "n div 10 < 10" by simp
    with False show ?thesis by (simp add: decimal_step s)
  qed
  have "0 < length (decimal y) \<and> length (decimal y) < 4"
  proof (cases "y < 10")
    case True
    then show ?thesis by (simp add: s)
  next
    case False
    with assms have "y div 10 < 100" by simp
    from t [OF this] False show ?thesis by (simp add: decimal_step)
  qed
  then show "0 < length (decimal y)" and "length (decimal y) < 4" by simp_all
qed

lemma is_ymd_string_strftime:
  assumes "valid_date dt" "1000 \<le> year dt"
  shows "is_ymd_string (strftime_ymd dt)"
proof (cases dt)
  case (Date y m d)
  with assms have y: "1000 \<le> y" "y \<le> 9999" by simp_all
  have "is_digit (digit_char (n mod 10))" for n :: int
    by (rule digit_char_props) simp_all
  then show ?thesis
    by (simp add: Date decimal_zpad4 [OF y] zpad4_def zpad2_def)
qed

lemma strptime_strftime:
  assumes "valid_date dt" "1000 \<le> year dt"
  shows "strptime_ymd (strftime_ymd dt) = Inr dt"
proof (cases dt)
  case (Date y m d)
  with assms have y1: "1 \<le> y" and y: "0 \<le> y" "y \<le> 9999" and m: "1 \<le> m" "m \<le> 12"
    and d: "1 \<le> d" "d \<le> days_in_month y m" and y4: "1000 \<le> y"
    by simp_all
  from days_in_month_pos [OF m, of y] d have d31: "d \<le> 31" by simp
  have "strptime_ymd (zpad4 y @ CHR ''-'' # zpad2 m @ CHR ''-'' # zpad2 d) = new_date y m d"
    unfolding strptime_ymd_def
    by (simp add: parse_Y_zpad4 [OF y] parse_m_zpad2 [OF m] parse_d_zpad2 [OF d(1) d31])
  also have "\<dots> = Inr (Date y m d)"
    using y1 y m d by (simp add: new_date_def)
  finally show ?thesis by (simp add: Date decimal_zpad4 [OF y4 y(2)])
qed

lemma is_ymd_string_length: "is_ymd_string s \<Longrightarrow> length s = 10"
  by (induction s rule: is_ymd_string.induct) simp_all

lemma parse_Y_digits:
  assumes "parse_Y s = Some r" "i < 4"
  shows "i < length s \<and> is_digit (s ! i)"
proof -
  from assms(1) obtain a b c d rest where s: "s = a # b # c # d # rest"
    by (cases s rule: parse_Y.cases) simp_all
  with assms(1) have "is_digit a \<and> is_digit b \<and> is_digit c \<and> is_digit d"
    by (simp split: if_splits)
  moreover from assms(2) have "i = 0 \<or> i = 1 \<or> i = 2 \<or> i = 3" by arith
  ultimately show ?thesis using s by auto
qed

lemma strftime_year_below_1000:
  assumes "year dt < 1000"
  shows "\<not> is_ymd_string (strftime_ymd dt)"
    and "strptime_ymd (strftime_ymd dt) = Inl (ValueError ''time data does not match format'')"
proof -
  obtain y m d where dt: "dt = Date y m d" by (cases dt)
  with assms have y: "y < 1000" by simp
  note l = decimal_length_below_1000 [OF y]
  have len: "length (strftime_ymd dt) = length (decimal y) + 6"
    by (simp add: dt zpad2_def)
  with l(2) show "\<not> is_ymd_string (strftime_ymd dt)"
    using is_ymd_string_length [of "strftime_ymd dt"] by auto
  have h: "strftime_ymd dt ! length (decimal y) = CHR ''-''"
    by (simp add: dt nth_append)
  have "parse_Y (strftime_ymd dt) = None"
  proof (cases "parse_Y (strftime_ymd dt)")
    case None
    then show ?thesis .
  next
    case (Some r)
    from parse_Y_digits [OF Some l(2)] h have "is_digit CHR ''-''" by simp
    then show ?thesis by (simp add: is_digit_def cp_def)
  qed
  then show "strptime_ymd (strftime_ymd dt) = Inl (ValueError ''time data does not match format'')"
    by (simp add: strptime_ymd_def)
qed

lemma new_date_valid: "new_date y m d = Inr dt \<Longrightarrow> dt = Date y m d \<and> valid_date dt"
  by (auto simp: new_date_def split: if_splits)

lemma strptime_valid: "strptime_ymd s = Inr dt \<Longrightarrow> valid_date dt"
  unfolding strptime_ymd_def
  by (auto split: option.splits if_splits dest!: new_date_valid)

lemma astimezone_valid:
  "datetime_utc_astimezone_ist args = Inr dt \<Longrightarrow> valid_date dt"
  unfolding datetime_utc_astimezone_ist_def Let_def
  by (auto split: if_splits sum.splits dest!: new_date_valid intro: next_day_valid)

lemma to_ist_ymd_cases:
  "to_ist_ymd now dt_struct True = Some (strftime_ymd now) \<or>
   (\<exists>t dt. dt_struct = Some t \<and> t \<noteq> [] \<and> datetime_utc_astimezone_ist (take 6 t) = Inr dt \<and>
      to_ist_ymd now dt_struct True = Some (strftime_ymd dt))"
  unfolding to_ist_ymd_def by (auto split: option.splits sum.splits)

subsection \<open>The claims on dates and the recency filter\<close>

lemma within_days_iff:
  "within_days today_ist dstr n =
     ((\<exists>s dt. dstr = Some s \<and> strptime_ymd s = Inr dt \<and> toordinal today_ist - toordinal dt \<le> n) \<or>
      \<not> (\<exists>s dt. dstr = Some s \<and> strptime_ymd s = Inr dt))"
  unfolding within_days_def by (auto split: option.splits sum.splits)

text \<open>
  C2. The recency filter retains an entry if and only if either its date string parses
  (as \<open>strptime\<close> with the format \<open>%Y-%m-%d\<close> parses it) and the difference in calendar days
  between the run date (the date in UTC+5:30) and the entry's date is at most 14, or the
  date string does not parse: an entry whose date cannot be read is always kept.
\<close>

theorem recency_filter_retains_iff:
  "(e \<in> set (filter_recent today_ist entries)) =
     (e \<in> set entries \<and>
      ((\<exists>s dt. rec_date e = Some s \<and> strptime_ymd s = Inr dt \<and>
                toordinal today_ist - toordinal dt \<le> 14) \<or>
       \<not> (\<exists>s dt. rec_date e = Some s \<and> strptime_ymd s = Inr dt)))"
  unfolding filter_recent_def using within_days_iff [of today_ist "rec_date e" 14] by simp

theorem recency_filter_retains_iff_witness:
  "sample_rec ''a'' ''u'' (Some ''2024-03-01'')
     \<in> set (filter_recent (Date 2024 3 15)
         [sample_rec ''a'' ''u'' (Some ''2024-03-01''), sample_rec ''b'' ''v'' (Some ''2024-02-29''),
          sample_rec ''c'' ''w'' (Some ''yesterday'')]) \<and>
   strptime_ymd ''2024-03-01'' = Inr (Date 2024 3 1) \<and>
   toordinal (Date 2024 3 15) - toordinal (Date 2024 3 1) = 14 \<and>
   sample_rec ''b'' ''v'' (Some ''2024-02-29'')
     \<notin> set (filter_recent (Date 2024 3 15)
         [sample_rec ''a'' ''u'' (Some ''2024-03-01''), sample_rec ''b'' ''v'' (Some ''2024-02-29''),
          sample_rec ''c'' ''w'' (Some ''yesterday'')]) \<and>
   strptime_ymd ''2024-02-29'' = Inr (Date 2024 2 29) \<and>
   toordinal (Date 2024 3 15) - toordinal (Date 2024 2 29) = 15 \<and>
   sample_rec ''c'' ''w'' (Some ''yesterday'')
     \<in> set (filter_recent (Date 2024 3 15)
         [sample_rec ''a'' ''u'' (Some ''2024-03-01''), sample_rec ''b'' ''v'' (Some ''2024-02-29''),
          sample_rec ''c'' ''w'' (Some ''yesterday'')]) \<and>
   isl (strptime_ymd ''yesterday'')"
proof -
  let ?a = "sample_rec ''a'' ''u'' (Some ''2024-03-01'')"
  let ?b = "sample_rec ''b'' ''v'' (Some ''2024-02-29'')"
  let ?c = "sample_rec ''c'' ''w'' (Some ''yesterday'')"
  have pa: "strptime_ymd ''2024-03-01'' = Inr (Date 2024 3 1)" by code_simp
  have pb: "strptime_ymd ''2024-02-29'' = Inr (Date 2024 2 29)" by code_simp
  have pc: "isl (strptime_ymd ''yesterday'')" by code_simp
  have da: "toordinal (Date 2024 3 15) - toordinal (Date 2024 3 1) = 14" by code_simp
  have db: "toordinal (Date 2024 3 15) - toordinal (Date 2024 2 29) = 15" by code_simp
  have ra: "rec_date ?a = Some ''2024-03-01''" and rb: "rec_date ?b = Some ''2024-02-29''"
    and rc: "rec_date ?c = Some ''yesterday''"
    by (simp_all add: sample_rec_def)
  have "?a \<in> set (filter_recent (Date 2024 3 15) [?a, ?b, ?c])"
    using recency_filter_retains_iff [of ?a "Date 2024 3 15" "[?a, ?b, ?c]"] pa da ra by simp
  moreover have "?b \<notin> set (filter_recent (Date 2024 3 15) [?a, ?b, ?c])"
    using recency_filter_retains_iff [of ?b "Date 2024 3 15" "[?a, ?b, ?c]"] pb db rb by simp
  moreover have "?c \<in> set (filter_recent (Date 2024 3 15) [?a, ?b, ?c])"
    using recency_filter_retains_iff [of ?c "Date 2024 3 15" "[?a, ?b, ?c]"] pc rc by auto
  ultimately show ?thesis using pa pb pc da db by simp
qed

text \<open>
  C10. The filter is one-sided. An entry whose date string parses to a date equal to or
  later than the run date, however far in the future, passes \<open>within_days\<close> and is
  retained; the entries the filter drops are exactly those whose date parses and lies more
  than 14 days before the run date.
\<close>

theorem recency_filter_one_sided:
  "valid_date today_ist \<Longrightarrow>
   (\<forall>s dt. strptime_ymd s = Inr dt \<and> date_le today_ist dt \<longrightarrow>
      within_days today_ist (Some s) 14 \<and>
      (\<forall>e\<in>set entries. rec_date e = Some s \<longrightarrow> e \<in> set (filter_recent today_ist entries))) \<and>
   (\<forall>e. (e \<in> set entries \<and> e \<notin> set (filter_recent today_ist entries)) =
      (e \<in> set entries \<and>
       (\<exists>s dt. rec_date e = Some s \<and> strptime_ymd s = Inr dt \<and>
          14 < toordinal today_ist - toordinal dt)))"
proof (intro conjI allI impI)
  fix s dt
  assume v: "valid_date today_ist" and a: "strptime_ymd s = Inr dt \<and> date_le today_ist dt"
  then have "toordinal today_ist \<le> toordinal dt"
    by (intro toordinal_mono) (auto dest: strptime_valid)
  with a show w: "within_days today_ist (Some s) 14"
    by (simp add: within_days_def)
  then show "\<forall>e\<in>set entries. rec_date e = Some s \<longrightarrow> e \<in> set (filter_recent today_ist entries)"
    by (simp add: filter_recent_def)
next
  fix e
  show "(e \<in> set entries \<and> e \<notin> set (filter_recent today_ist entries)) =
      (e \<in> set entries \<and>
       (\<exists>s dt. rec_date e = Some s \<and> strptime_ymd s = Inr dt \<and>
          14 < toordinal today_ist - toordinal dt))"
    unfolding filter_recent_def within_days_def
    by (auto split: option.splits sum.splits)
qed

theorem recency_filter_one_sided_witness:
  "valid_date (Date 2024 3 15) \<and>
   strptime_ymd ''2031-01-01'' = Inr (Date 2031 1 1) \<and>
   date_le (Date 2024 3 15) (Date 2031 1 1) \<and>
   within_days (Date 2024 3 15) (Some ''2031-01-01'') 14 \<and>
   sample_rec ''a'' ''u'' (Some ''2031-01-01'')
     \<in> set (filter_recent (Date 2024 3 15)
         [sample_rec ''a'' ''u'' (Some ''2031-01-01''), sample_rec ''b'' ''v'' (Some ''2024-02-29'')]) \<and>
   sample_rec ''b'' ''v'' (Some ''2024-02-29'')
     \<notin> set (filter_recent (Date 2024 3 15)
         [sample_rec ''a'' ''u'' (Some ''2031-01-01''), sample_rec ''b'' ''v'' (Some ''2024-02-29'')]) \<and>
   strptime_ymd ''2024-02-29'' = Inr (Date 2024 2 29) \<and>
   14 < toordinal (Date 2024 3 15) - toordinal (Date 2024 2 29)"
proof -
  let ?a = "sample_rec ''a'' ''u'' (Some ''2031-01-01'')"
  let ?b = "sample_rec ''b'' ''v'' (Some ''2024-02-29'')"
  have v: "valid_date (Date 2024 3 15)" by code_simp
  have pa: "strptime_ymd ''2031-01-01'' = Inr (Date 2031 1 1)" by code_simp
  have pb: "strptime_ymd ''2024-02-29'' = Inr (Date 2024 2 29)" by code_simp
  have le: "date_le (Date 2024 3 15) (Date 2031 1 1)" by simp
  have db: "14 < toordinal (Date 2024 3 15) - toordinal (Date 2024 2 29)" by code_simp
  have ra: "rec_date ?a = Some ''2031-01-01''" and rb: "rec_date ?b = Some ''2024-02-29''"
    by (simp_all add: sample_rec_def)
  note t = recency_filter_one_sided [OF v, of "[?a, ?b]"]
  from t pa le have w: "within_days (Date 2024 3 15) (Some ''2031-01-01'') 14"
    by blast
  from t pa le ra have ka: "?a \<in> set (filter_recent (Date 2024 3 15) [?a, ?b])"
    by (metis list.set_intros(1))
  have "?b \<in> set [?a, ?b] \<and>
      (\<exists>s dt. rec_date ?b = Some s \<and> strptime_ymd s = Inr dt \<and>
          14 < toordinal (Date 2024 3 15) - toordinal dt)"
    using pb db rb by simp
  with t have kb: "?b \<notin> set (filter_recent (Date 2024 3 15) [?a, ?b])"
    by blast
  from v pa pb le db w ka kb show ?thesis by simp
qed

text \<open>
  With the fallback enabled \<open>to_ist_ymd\<close> returns a string for every input, never \<open>None\<close>
  and never an exception (the model has no exception result: every exception of the
  conversion is caught). The string is the print of the date the time tuple has in UTC+5:30
  when the conversion succeeds, and the print of the current date in UTC+5:30 when the
  tuple is missing, empty or cannot be converted. The print of a valid date whose year has
  four digits has the shape \<open>YYYY-MM-DD\<close> and reads back as that date.
\<close>

lemma to_ist_ymd_total:
  shows "\<exists>s. to_ist_ymd now dt_struct True = Some s"
    and "dt_struct = None \<or> dt_struct = Some [] \<or>
         (\<exists>t ex. dt_struct = Some t \<and> datetime_utc_astimezone_ist (take 6 t) = Inl ex) \<Longrightarrow>
         to_ist_ymd now dt_struct True = Some (strftime_ymd now)"
    and "dt_struct = Some t \<Longrightarrow> t \<noteq> [] \<Longrightarrow> datetime_utc_astimezone_ist (take 6 t) = Inr dt \<Longrightarrow>
         to_ist_ymd now dt_struct True = Some (strftime_ymd dt) \<and> valid_date dt"
proof -
  show "\<exists>s. to_ist_ymd now dt_struct True = Some s"
    using to_ist_ymd_cases [of now dt_struct] by blast
  show "to_ist_ymd now dt_struct True = Some (strftime_ymd now)"
    if "dt_struct = None \<or> dt_struct = Some [] \<or>
         (\<exists>t ex. dt_struct = Some t \<and> datetime_utc_astimezone_ist (take 6 t) = Inl ex)"
    using that unfolding to_ist_ymd_def by (auto split: option.splits)
  show "to_ist_ymd now dt_struct True = Some (strftime_ymd dt) \<and> valid_date dt"
    if "dt_struct = Some t" "t \<noteq> []" "datetime_utc_astimezone_ist (take 6 t) = Inr dt"
    using that astimezone_valid [of "take 6 t" dt] by (simp add: to_ist_ymd_def)
qed

lemma to_ist_ymd_valid_from_1000:
  assumes now: "valid_date now" "1000 \<le> year now"
    and conv: "\<And>t dt. dt_struct = Some t \<Longrightarrow>
      datetime_utc_astimezone_ist (take 6 t) = Inr dt \<Longrightarrow> 1000 \<le> year dt"
  shows "\<exists>s dt. to_ist_ymd now dt_struct True = Some s \<and> is_ymd_string s \<and>
      strptime_ymd s = Inr dt \<and> valid_date dt"
  using to_ist_ymd_cases [of now dt_struct]
proof
  assume "to_ist_ymd now dt_struct True = Some (strftime_ymd now)"
  with now show ?thesis
    using is_ymd_string_strftime [of now] strptime_strftime [of now] by blast
next
  assume "\<exists>t dt. dt_struct = Some t \<and> t \<noteq> [] \<and>
    datetime_utc_astimezone_ist (take 6 t) = Inr dt \<and>
    to_ist_ymd now dt_struct True = Some (strftime_ymd dt)"
  then obtain t dt where s: "dt_struct = Some t"
    and dt: "datetime_utc_astimezone_ist (take 6 t) = Inr dt"
    and r: "to_ist_ymd now dt_struct True = Some (strftime_ymd dt)"
    by blast
  from dt have "valid_date dt" by (rule astimezone_valid)
  moreover from conv [OF s dt] have "1000 \<le> year dt" .
  ultimately show ?thesis
    using r is_ymd_string_strftime [of dt] strptime_strftime [of dt] by blast
qed

lemma to_ist_ymd_examples:
  "to_ist_ymd (Date 2026 11 3) (Some [2024, 2, 28, 18, 30, 0, 2, 59, 0]) True = Some ''2024-02-29''"
  "to_ist_ymd (Date 2026 11 3) None True = Some ''2026-11-03''"
  "to_ist_ymd (Date 2026 11 3) (Some [2023, 2, 29, 0, 0, 0, 2, 60, 0]) True = Some ''2026-11-03''"
  "to_ist_ymd (Date 2026 11 3) (Some [9999, 12, 31, 18, 30, 0, 4, 365, 0]) True = Some ''2026-11-03''"
  by code_simp+

text \<open>
  C8. \<open>to_ist_ymd\<close> with the fallback enabled does not return a valid \<open>YYYY-MM-DD\<close> string
  for every input. For the time tuple of 15 June 999, 00:00 UTC, it returns \<open>999-06-15\<close>:
  the year is printed with three digits, the string is not of the shape \<open>YYYY-MM-DD\<close>, and
  \<open>strptime\<close> with the same format rejects it, so that the recency filter keeps the entry
  as one whose date cannot be read.
\<close>

theorem to_ist_ymd_year_below_1000:
  "to_ist_ymd (Date 2024 3 15) (Some [999, 6, 15, 0, 0, 0, 5, 166, 0]) True = Some ''999-06-15'' \<and>
   \<not> is_ymd_string ''999-06-15'' \<and>
   strptime_ymd ''999-06-15'' = Inl (ValueError ''time data does not match format'') \<and>
   within_days (Date 2024 3 15) (Some ''999-06-15'') 14"
  by code_simp

subsection \<open>Tag stripping\<close>

lemma strip_tags_no_lt: "CHR ''<'' \<notin> set s \<Longrightarrow> strip_tags s = s"
  by (induction s) auto

lemma tag_close_body:
  "CHR ''<'' \<notin> set body \<Longrightarrow> CHR ''>'' \<notin> set body \<Longrightarrow>
   tag_close (body @ CHR ''>'' # post) = Some post"
  by (induction body) auto

lemma tag_end_body:
  "body \<noteq> [] \<Longrightarrow> CHR ''<'' \<notin> set body \<Longrightarrow> CHR ''>'' \<notin> set body \<Longrightarrow>
   tag_end (body @ CHR ''>'' # post) = Some post"
  by (cases body) (auto simp: tag_close_body)

lemma strip_tags_tag:
  assumes "CHR ''<'' \<notin> set pre" "body \<noteq> []" "CHR ''<'' \<notin> set body" "CHR ''>'' \<notin> set body"
  shows "strip_tags (pre @ CHR ''<'' # body @ CHR ''>'' # post) = pre @ strip_tags post"
  using assms(1)
proof (induction pre)
  case Nil
  show ?case using tag_end_body [OF assms(2-4), of post] by simp
next
  case (Cons c pre)
  then show ?case by auto
qed

lemma normalize_summary_length:
  "length (normalize_summary raw) \<le> 450"
  "450 < length (strip_tags (strip raw)) \<Longrightarrow> length (normalize_summary raw) = 450"
  by (simp_all add: normalize_summary_def)

lemma normalize_hello: "normalize_summary ''<b>Hello</b> World'' = ''Hello World''"
  by code_simp

text \<open>
  C6 (as amended). The normalized summary is the raw text, first trimmed of leading and
  trailing whitespace, then with the markup tags deleted by the tag-stripping pass, then cut
  to its first 450 characters: it never has more than 450 characters, and exactly 450 when
  the stripped text is longer. \<open><b>Hello</b> World\<close> becomes \<open>Hello World\<close>. The pass leaves
  a text without \<open><\<close> as it is and deletes a tag \<open><...>\<close> whose inside is not empty and holds
  neither \<open><\<close> nor \<open>>\<close>.
\<close>

theorem summary_trimmed_stripped_truncated:
  "normalize_summary raw = take 450 (strip_tags (strip raw)) \<and>
   length (normalize_summary raw) \<le> 450 \<and>
   (450 < length (strip_tags (strip raw)) \<longrightarrow> length (normalize_summary raw) = 450) \<and>
   normalize_summary ''<b>Hello</b> World'' = ''Hello World'' \<and>
   (CHR ''<'' \<notin> set raw \<longrightarrow> strip_tags raw = raw) \<and>
   (\<forall>pre body post.
      CHR ''<'' \<notin> set pre \<and> body \<noteq> [] \<and> CHR ''<'' \<notin> set body \<and> CHR ''>'' \<notin> set body \<longrightarrow>
      strip_tags (pre @ CHR ''<'' # body @ CHR ''>'' # post) = pre @ strip_tags post)"
  using normalize_summary_length [of raw] normalize_hello strip_tags_no_lt [of raw] strip_tags_tag
  by (simp add: normalize_summary_def)

theorem summary_trimmed_stripped_truncated_witness:
  "450 < length (strip_tags (strip (''<p>'' @ replicate 460 CHR ''y'' @ '' ''))) \<and>
   length (normalize_summary (''<p>'' @ replicate 460 CHR ''y'' @ '' '')) = 450 \<and>
   CHR ''<'' \<notin> set ''a > b'' \<and> strip_tags ''a > b'' = ''a > b'' \<and>
   strip_tags (''x '' @ CHR ''<'' # ''br/'' @ CHR ''>'' # '' y'') = ''x '' @ strip_tags '' y''"
proof -
  have long: "450 < length (strip_tags (strip (''<p>'' @ replicate 460 CHR ''y'' @ '' '')))"
    by code_simp
  have nolt: "CHR ''<'' \<notin> set ''a > b''" by simp
  have tag: "CHR ''<'' \<notin> set ''x '' \<and> ''br/'' \<noteq> [] \<and> CHR ''<'' \<notin> set ''br/'' \<and> CHR ''>'' \<notin> set ''br/''"
    by simp
  note t = summary_trimmed_stripped_truncated
  from t [of "''<p>'' @ replicate 460 CHR ''y'' @ '' ''"] long
  have a: "length (normalize_summary (''<p>'' @ replicate 460 CHR ''y'' @ '' '')) = 450" by blast
  from t [of "''a > b''"] nolt have b: "strip_tags ''a > b'' = ''a > b''" by blast
  from t [of "[]"] tag
  have c: "strip_tags (''x '' @ CHR ''<'' # ''br/'' @ CHR ''>'' # '' y'') = ''x '' @ strip_tags '' y''"
    by blast
  from long a nolt b c show ?thesis by blast
qed

text \<open>
  The summary is not just the input with the tags removed and truncated: the input is
  trimmed first, so a raw summary with a leading space loses it.
\<close>

theorem summary_not_only_stripped_counterexample:
  "normalize_summary '' Hello'' \<noteq> take 450 (strip_tags '' Hello'')"
  by code_simp

subsection \<open>Prelims\<close>

lemma str_replace_no_occurrence: "\<not> occurs old s \<Longrightarrow> str_replace old new s = s"
  by (induction s) auto

lemma str_replace_leading_www:
  "str_replace ''www.'' [] (''www.'' @ r) = str_replace ''www.'' [] r"
  by simp

lemma str_replace_www_only_leading:
  "\<not> occurs ''www.'' (without_leading_www host) \<Longrightarrow>
   str_replace ''www.'' [] host = without_leading_www host"
proof (cases "prefix ''www.'' host")
  case True
  assume n: "\<not> occurs ''www.'' (without_leading_www host)"
  from True obtain r where r: "host = ''www.'' @ r" by (auto simp: prefix_def)
  with n have "\<not> occurs ''www.'' r" by (simp add: without_leading_www_def)
  then have "str_replace ''www.'' [] r = r" by (rule str_replace_no_occurrence)
  with r show ?thesis
    using str_replace_leading_www [of r] by (simp add: without_leading_www_def)
next
  case False
  assume "\<not> occurs ''www.'' (without_leading_www host)"
  with False show ?thesis
    by (simp add: without_leading_www_def str_replace_no_occurrence)
qed

text \<open>
  What \<open>prelims_facts\<close> returns. When \<open>urlparse\<close> raises, so does \<open>prelims_facts\<close>. Otherwise
  the list is, in this order, \<open>Source: <feed name>\<close>, \<open>Date: <date>\<close> and, when the network
  location of the link with every occurrence of \<open>www.\<close> deleted is not empty,
  \<open>Domain: <that reduced network location>\<close>. When \<open>www.\<close> occurs in the network location
  at most as its leading prefix, and the location is not just \<open>www.\<close>, this is the list with
  the location without its leading \<open>www.\<close>.
\<close>

lemma prelims_facts_cases:
  "(\<forall>ex. urlparse_netloc bracketed_host_ok (rec_link entry) = Inl ex \<longrightarrow>
      prelims_facts bracketed_host_ok entry date_str = Inl ex) \<and>
   (\<forall>host. urlparse_netloc bracketed_host_ok (rec_link entry) = Inr host \<longrightarrow>
      prelims_facts bracketed_host_ok entry date_str =
        Inr ([''Source: '' @ rec_feed_name entry, ''Date: '' @ fmt_date date_str]
             @ (if str_replace ''www.'' [] host \<noteq> []
                then [''Domain: '' @ str_replace ''www.'' [] host] else [])) \<and>
      (\<not> occurs ''www.'' (without_leading_www host) \<and> host \<noteq> ''www.'' \<longrightarrow>
       prelims_facts bracketed_host_ok entry date_str =
         Inr (prelims_as_specified (rec_feed_name entry) date_str host)))"
proof (intro conjI allI impI)
  fix ex assume "urlparse_netloc bracketed_host_ok (rec_link entry) = Inl ex"
  then show "prelims_facts bracketed_host_ok entry date_str = Inl ex"
    by (simp add: prelims_facts_def)
next
  fix host assume h: "urlparse_netloc bracketed_host_ok (rec_link entry) = Inr host"
  then show p: "prelims_facts bracketed_host_ok entry date_str =
        Inr ([''Source: '' @ rec_feed_name entry, ''Date: '' @ fmt_date date_str]
             @ (if str_replace ''www.'' [] host \<noteq> []
                then [''Domain: '' @ str_replace ''www.'' [] host] else []))"
    by (simp add: prelims_facts_def Let_def)
  assume a: "\<not> occurs ''www.'' (without_leading_www host) \<and> host \<noteq> ''www.''"
  then have r: "str_replace ''www.'' [] host = without_leading_www host"
    by (simp add: str_replace_www_only_leading)
  have "(without_leading_www host \<noteq> []) = (host \<noteq> [])"
  proof (cases "prefix ''www.'' host")
    case True
    then obtain r where "host = ''www.'' @ r" by (auto simp: prefix_def)
    with a show ?thesis by (auto simp: without_leading_www_def)
  next
    case False
    then show ?thesis by (simp add: without_leading_www_def)
  qed
  with p r show "prelims_facts bracketed_host_ok entry date_str =
         Inr (prelims_as_specified (rec_feed_name entry) date_str host)"
    by (simp add: prelims_as_specified_def)
qed

lemma netloc_pib: "urlparse_netloc (\<lambda>h. True) ''https://pib.gov.in/x'' = Inr ''pib.gov.in''"
  by code_simp

lemma netloc_bad: "urlparse_netloc (\<lambda>h. True) ''http://[pib.gov.in/x''
    = Inl (ValueError ''Invalid IPv6 URL'')"
  by code_simp

lemma netloc_examples:
  "urlparse_netloc (\<lambda>h. True) ''https://www.mea.gov.in/rss-feeds.htm'' = Inr ''www.mea.gov.in''"
  "urlparse_netloc (\<lambda>h. True) ''https://user:pw@example.com:8080/a'' = Inr ''user:pw@example.com:8080''"
  "urlparse_netloc (\<lambda>h. True) ''https://www./a'' = Inr ''www.''"
  by code_simp+

text \<open>
  C7. The prelims list is \<open>Source: <feed name>\<close>, \<open>Date: <date>\<close> and, for a link with a host,
  \<open>Domain: <host without a leading www. prefix>\<close>. For the link
  \<open>https://pib.gov.in/x\<close> the code gives just that, \<open>Domain: pib.gov.in\<close>. For the link
  \<open>https://awww.example.com/x\<close>, whose host \<open>awww.example.com\<close> has no leading \<open>www.\<close>, the
  code gives \<open>Domain: aexample.com\<close>, not \<open>Domain: awww.example.com\<close>: it deletes \<open>www.\<close>
  wherever it stands in the host, not only in front.
\<close>

theorem prelims_facts_inner_www:
  "prelims_facts (\<lambda>h. True) (sample_rec ''t'' ''https://pib.gov.in/x'' None) (Some ''2024-03-13'')
     = Inr [''Source: PIB'', ''Date: 2024-03-13'', ''Domain: pib.gov.in''] \<and>
   urlparse_netloc (\<lambda>h. True) ''https://awww.example.com/x'' = Inr ''awww.example.com'' \<and>
   without_leading_www ''awww.example.com'' = ''awww.example.com'' \<and>
   prelims_as_specified ''PIB'' (Some ''2024-03-13'') ''awww.example.com''
     = [''Source: PIB'', ''Date: 2024-03-13'', ''Domain: awww.example.com''] \<and>
   prelims_facts (\<lambda>h. True) (sample_rec ''t'' ''https://awww.example.com/x'' None)
       (Some ''2024-03-13'')
     = Inr [''Source: PIB'', ''Date: 2024-03-13'', ''Domain: aexample.com'']"
  by code_simp

subsection \<open>Dedup\<close>

lemma dedup_loop_filter:
  "dedup_loop seen deduped items =
     deduped @ map (\<lambda>i. items ! i)
       (filter (\<lambda>i. key (items ! i) \<notin> seen \<and> key (items ! i) \<notin> key ` set (take i items))
          [0..<length items])"
proof (induction items arbitrary: seen deduped)
  case Nil
  show ?case by simp
next
  case (Cons it items)
  let ?P = "\<lambda>S i. key (items ! i) \<notin> S \<and> key (items ! i) \<notin> key ` set (take i items)"
  have shift: "map (\<lambda>i. (it # items) ! i)
        (filter (\<lambda>i. key ((it # items) ! i) \<notin> S \<and>
                     key ((it # items) ! i) \<notin> key ` set (take i (it # items)))
           (map Suc [0..<length items]))
      = map (\<lambda>i. items ! i) (filter (?P (insert (key it) S)) [0..<length items])" for S
    by (simp add: filter_map comp_def conj_ac)
  have upt: "[0..<length (it # items)] = 0 # map Suc [0..<length items]"
    by (simp add: upt_conv_Cons map_Suc_upt del: upt_Suc)
  have step: "map (\<lambda>i. (it # items) ! i)
        (filter (\<lambda>i. key ((it # items) ! i) \<notin> seen \<and>
                     key ((it # items) ! i) \<notin> key ` set (take i (it # items)))
           [0..<length (it # items)])
      = (if key it \<in> seen then [] else [it])
        @ map (\<lambda>i. items ! i) (filter (?P (insert (key it) seen)) [0..<length items])"
    unfolding upt filter.simps list.map using shift [of seen] by simp
  show ?case
  proof (cases "key it \<in> seen")
    case True
    then have "insert (key it) seen = seen" by auto
    with True show ?thesis
      unfolding step by (simp add: Cons.IH)
  next
    case False
    then show ?thesis
      unfolding step by (simp add: Cons.IH)
  qed
qed

lemma dedup_filter:
  "dedup items =
     map (\<lambda>i. items ! i)
       (filter (\<lambda>i. key (items ! i) \<notin> key ` set (take i items)) [0..<length items])"
  by (simp add: dedup_def dedup_loop_filter)

lemma dedup_loop_distinct:
  "distinct (map key deduped) \<Longrightarrow> key ` set deduped \<subseteq> seen \<Longrightarrow>
   distinct (map key (dedup_loop seen deduped items)) \<and>
   key ` set (dedup_loop seen deduped items) \<subseteq> seen \<union> key ` set items"
proof (induction items arbitrary: seen deduped)
  case Nil
  then show ?case by auto
next
  case (Cons it items)
  show ?case
  proof (cases "key it \<in> seen")
    case True
    with Cons.IH [OF Cons.prems] show ?thesis by auto
  next
    case False
    have d: "distinct (map key (deduped @ [it]))"
      using Cons.prems False by auto
    have s: "key ` set (deduped @ [it]) \<subseteq> insert (key it) seen"
      using Cons.prems by auto
    from Cons.IH [OF d s] False show ?thesis by auto
  qed
qed

lemma dedup_distinct: "distinct (map key (dedup items))"
  using dedup_loop_distinct [of "[]" "{}" items] by (simp add: dedup_def)

lemma dedup_loop_subseq: "subseq (dedup_loop seen deduped items) (deduped @ items)"
proof (induction items arbitrary: seen deduped)
  case Nil
  show ?case by simp
next
  case (Cons it items)
  show ?case
  proof (cases "key it \<in> seen")
    case True
    have "subseq (deduped @ items) (deduped @ it # items)"
      by (simp add: subseq_append_iff) (metis append_Nil list_emb_Cons subseq_order.order_refl)
    with Cons.IH [of seen deduped] True show ?thesis
      by (auto intro: subseq_order.order_trans)
  next
    case False
    with Cons.IH [of "insert (key it) seen" "deduped @ [it]"] show ?thesis by simp
  qed
qed

lemma dedup_subseq: "subseq (dedup items) items"
  using dedup_loop_subseq [of "{}" "[]" items] by (simp add: dedup_def)

lemma dedup_keys: "key ` set (dedup items) = key ` set items"
proof
  show "key ` set (dedup items) \<subseteq> key ` set items"
    using dedup_loop_distinct [of "[]" "{}" items] by (simp add: dedup_def)
next
  show "key ` set items \<subseteq> key ` set (dedup items)"
  proof
    fix k assume "k \<in> key ` set items"
    then obtain j where j: "j < length items" "key (items ! j) = k"
      by (auto simp: in_set_conv_nth)
    define i where "i = (LEAST i. i < length items \<and> key (items ! i) = k)"
    have i: "i < length items \<and> key (items ! i) = k"
      unfolding i_def by (rule LeastI [of _ j]) (use j in simp)
    have least: "\<not> (m < length items \<and> key (items ! m) = k)" if "m < i" for m
      using that not_less_Least unfolding i_def by blast
    have "k \<notin> key ` set (take i items)"
    proof
      assume "k \<in> key ` set (take i items)"
      then obtain m where "m < i" "m < length items" "key (items ! m) = k"
        by (auto simp: in_set_conv_nth)
      with least show False by blast
    qed
    with i have "items ! i \<in> set (dedup items)"
      by (auto simp: dedup_filter)
    with i show "k \<in> key ` set (dedup items)" by force
  qed
qed

subsection \<open>Sort\<close>

lemma sort_items_Inr:
  "sort_items deduped = Inr out \<Longrightarrow> out = rev (sort_key sort_key_of (rev deduped))"
  by (auto simp: sort_items_def split: if_splits)

lemma sort_items_mset: "sort_items deduped = Inr out \<Longrightarrow> mset out = mset deduped"
  by (drule sort_items_Inr) simp


lemma sort_items_distinct:
  "sort_items deduped = Inr out \<Longrightarrow> distinct (map key deduped) \<Longrightarrow> distinct (map key out)"
proof -
  assume "sort_items deduped = Inr out" and d: "distinct (map key deduped)"
  then have "mset (map key out) = mset (map key deduped)"
    by (simp add: sort_items_mset)
  then show ?thesis
    using d by (metis mset_eq_imp_distinct_iff)
qed

subsection \<open>The claims on dedup and sort\<close>

text \<open>
  C3. No two items of the final output (the sorted list of the deduplicated items) share
  a (title, link) pair. Dedup walks the items in their produced order and keeps exactly the
  items whose pair does not occur at an earlier position, so the first occurrence of every
  pair stays and every later one goes; what is kept stands in its original relative order
  (it is a subsequence of the input), and every pair of the input is still there.
\<close>

theorem dedup_keeps_first_occurrences:
  "distinct (map key (dedup items)) \<and>
   dedup items =
     map (\<lambda>i. items ! i)
       (filter (\<lambda>i. key (items ! i) \<notin> key ` set (take i items)) [0..<length items]) \<and>
   subseq (dedup items) items \<and>
   key ` set (dedup items) = key ` set items \<and>
   (\<forall>out. sort_items (dedup items) = Inr out \<longrightarrow> distinct (map key out))"
  using dedup_distinct [of items] dedup_filter [of items] dedup_subseq [of items]
    dedup_keys [of items] sort_items_distinct [of "dedup items"]
  by blast

theorem dedup_keeps_first_occurrences_witness:
  "dedup [sample_item ''2024-01-02'' ''Polity'' ''A'' ''u'',
          sample_item ''2024-01-03'' ''Economy'' ''B'' ''v'',
          sample_item ''2024-01-05'' ''Economy'' ''A'' ''u'']
     = [sample_item ''2024-01-02'' ''Polity'' ''A'' ''u'',
        sample_item ''2024-01-03'' ''Economy'' ''B'' ''v''] \<and>
   sort_items (dedup [sample_item ''2024-01-02'' ''Polity'' ''A'' ''u'',
          sample_item ''2024-01-03'' ''Economy'' ''B'' ''v'',
          sample_item ''2024-01-05'' ''Economy'' ''A'' ''u''])
     = Inr [sample_item ''2024-01-03'' ''Economy'' ''B'' ''v'',
            sample_item ''2024-01-02'' ''Polity'' ''A'' ''u''] \<and>
   distinct (map key [sample_item ''2024-01-03'' ''Economy'' ''B'' ''v'',
            sample_item ''2024-01-02'' ''Polity'' ''A'' ''u''])"
proof -
  let ?items = "[sample_item ''2024-01-02'' ''Polity'' ''A'' ''u'',
          sample_item ''2024-01-03'' ''Economy'' ''B'' ''v'',
          sample_item ''2024-01-05'' ''Economy'' ''A'' ''u'']"
  let ?out = "[sample_item ''2024-01-03'' ''Economy'' ''B'' ''v'',
            sample_item ''2024-01-02'' ''Polity'' ''A'' ''u'']"
  have d: "dedup ?items = [sample_item ''2024-01-02'' ''Polity'' ''A'' ''u'',
        sample_item ''2024-01-03'' ''Economy'' ''B'' ''v'']"
    by (simp add: dedup_def key_def sample_item_def)
  have s: "sort_items (dedup ?items) = Inr ?out"
    unfolding d by (simp add: sort_items_def sort_key_of_def sample_item_def)
  from dedup_keeps_first_occurrences [of ?items] s have "distinct (map key ?out)"
    by blast
  with d s show ?thesis by simp
qed



subsection \<open>Item ids\<close>

lemma unat_and_15: "unat (n AND 15 :: 32 word) < 16"
proof -
  have "n AND 15 \<le> 15" by (rule word_and_le1)
  then have "unat (n AND 15) \<le> unat (15 :: 32 word)" by (simp add: word_le_nat_alt)
  then show ?thesis by simp
qed

lemma hex_digit_lower: "is_lower_hex (hex_digit n)"
  unfolding is_lower_hex_def hex_digit_def
  by (rule nth_mem) (use unat_and_15 [of n] in simp)

lemma hex32_props: "length (hex32 w) = 8" "list_all is_lower_hex (hex32 w)"
  by (simp_all add: hex32_def hex_digit_lower)

lemma hexdigest_props: "length (hexdigest st) = 40" "list_all is_lower_hex (hexdigest st)"
  by (cases st; simp add: hex32_props)+

lemma list_all_take: "list_all P xs \<Longrightarrow> list_all P (take n xs)"
  by (auto simp: list_all_iff dest: in_set_takeD)

lemma item_id_props: "length (item_id title link) = 12" "list_all is_lower_hex (item_id title link)"
  by (simp_all add: item_id_def Let_def hexdigest_props list_all_take)

lemma make_item_id:
  "make_item bracketed_host_ok e = Inr it \<Longrightarrow>
   it_id it = item_id (Some (rec_title e)) (Some (rec_link e))"
  by (auto simp: make_item_def Let_def split: sum.splits)

subsection \<open>Loading\<close>

lemma append_entries_map:
  "append_entries now f es entries = entries @ map (make_rec now f) es"
  by (induction es arbitrary: entries) simp_all

lemma load_feeds_eq:
  "load_feeds now parse feeds (entries, stderr) =
     (entries @ concat (map (entries_of_feed now parse) feeds),
      stderr @ concat (map (warnings_of_feed parse) feeds))"
proof (induction feeds arbitrary: entries stderr)
  case Nil
  show ?case by simp
next
  case (Cons f fs)
  show ?case
    by (cases "parse (f_url f)")
       (simp_all add: Cons.IH entries_of_feed_def warnings_of_feed_def append_entries_map)
qed

lemma entries_of_failed: "isl (parse (f_url f)) \<Longrightarrow> entries_of_feed now parse f = []"
  by (cases "parse (f_url f)") (simp_all add: entries_of_feed_def)

lemma concat_entries_filter:
  "concat (map (entries_of_feed now parse) (filter (\<lambda>f. \<not> isl (parse (f_url f))) feeds)) =
   concat (map (entries_of_feed now parse) feeds)"
  by (induction feeds) (simp_all add: entries_of_failed)

lemma make_items_Inr:
  "make_items chk es items = Inr out \<Longrightarrow>
   \<exists>its. out = items @ its \<and> length its = length es \<and>
     (\<forall>i<length es. make_item chk (es ! i) = Inr (its ! i))"
proof (induction es arbitrary: items)
  case Nil
  then show ?case by simp
next
  case (Cons e es)
  from Cons.prems obtain it where it: "make_item chk e = Inr it"
    and r: "make_items chk es (items @ [it]) = Inr out"
    by (auto split: sum.splits)
  from Cons.IH [OF r] obtain its where its: "out = (items @ [it]) @ its" "length its = length es"
    "\<forall>i<length es. make_item chk (es ! i) = Inr (its ! i)" by blast
  show ?case
  proof (intro exI conjI)
    show "out = items @ (it # its)" using its(1) by simp
    show "length (it # its) = length (e # es)" using its(2) by simp
    show "\<forall>i<length (e # es). make_item chk ((e # es) ! i) = Inr ((it # its) ! i)"
      using it its(3) by (auto simp: nth_Cons split: nat.splits)
  qed
qed

lemma make_item_key:
  "make_item chk e = Inr it \<Longrightarrow> key it = (rec_title e, rec_link e)"
  by (auto simp: make_item_def Let_def key_def split: sum.splits)

lemma make_items_keys:
  assumes "make_items chk es [] = Inr items" and "e \<in> set es"
  shows "(rec_title e, rec_link e) \<in> key ` set items"
proof -
  from make_items_Inr [OF assms(1)] obtain its where its: "items = its"
    "length its = length es" "\<forall>i<length es. make_item chk (es ! i) = Inr (its ! i)"
    by auto
  from assms(2) obtain i where i: "i < length es" "es ! i = e" by (auto simp: in_set_conv_nth)
  with its have "make_item chk e = Inr (items ! i)" by auto
  then have "key (items ! i) = (rec_title e, rec_link e)" by (rule make_item_key)
  moreover have "items ! i \<in> set items" using i its by simp
  ultimately show ?thesis by force
qed

subsection \<open>Evaluating SHA-1\<close>

lemma schedule_numeral:
  "schedule (numeral k) ws =
     schedule (pred_numeral k) (rotl32 1 (ws ! 2 XOR ws ! 7 XOR ws ! 13 XOR ws ! 15) # ws)"
  by (simp add: numeral_eq_Suc)

lemma words_of_numeral:
  "words_of (numeral k) bs = be32 (take 4 bs) # words_of (pred_numeral k) (drop 4 bs)"
  by (simp add: numeral_eq_Suc)

lemma blocks_of_1: "blocks_of 1 bs = [words_of 16 (take 64 bs)]"
  using blocks_of.simps(2) [of 0 bs] by simp

lemma words_of_1: "words_of 1 bs = [be32 (take 4 bs)]"
  using words_of.simps(2) [of 0 bs] by simp

lemma replicate_pred_numeral: "replicate (numeral k) x = x # replicate (pred_numeral k) x"
  by (simp add: numeral_eq_Suc)

lemma upt_80:
  "[0..<80] =
     [0, 1, 2, 3, 4, 5, 6, 7, 8, 9, 10, 11, 12, 13, 14, 15, 16, 17, 18, 19,
      20, 21, 22, 23, 24, 25, 26, 27, 28, 29, 30, 31, 32, 33, 34, 35, 36, 37, 38, 39,
      40, 41, 42, 43, 44, 45, 46, 47, 48, 49, 50, 51, 52, 53, 54, 55, 56, 57, 58, 59,
      60, 61, 62, 63, 64, 65, 66, 67, 68, 69, 70, 71, 72, 73, 74, 75, 76, 77, 78, 79]"
  by code_simp

lemma rotl32_wrap: "rotl32 n w = take_bit 32 (push_bit n w) OR drop_bit (32 - n) w"
  by (simp add: rotl32_def take_bit_word_eq_self)

lemmas sha1_eval =
  utf8_encode_def utf8_char_def cp_def sha1_pad_def be64_def replicate_pred_numeral
  blocks_of_1 words_of_numeral words_of_1 be32_def schedule_numeral rotl32_wrap
  sha1_f_def sha1_k_def upt_80 hex32_def hex_digit_def

lemma sha1_abc:
  "hexdigest (sha1 (utf8_encode ''abc'')) = ''a9993e364706816aba3e25717850c26c9cd0d89d''"
  unfolding sha1_def Let_def by (simp add: sha1_eval)

lemma item_id_scenario:
  "item_id (Some ''RBI hikes repo rate by 25 bps'') (Some ''https://pib.gov.in/x'') = ''579a65972b5d''"
  unfolding item_id_def Let_def or_empty_def sha1_def by (simp add: sha1_eval)

subsection \<open>A sample run and the claims on ids and feed failures\<close>

lemma classify_rbi:
  "classify ''RBI hikes repo rate by 25 bps'' [] ''PIB'' = ''Economy''"
  "classify ''RBI hikes repo rate by 25 bps'' ''Bill tabled'' ''PIB'' = ''Economy''"
  by code_simp+

lemma prelims_rbi:
  "prelims_facts (\<lambda>h. True) (sample_rec_rbi s (Some ''2024-03-13'')) (Some ''2024-03-13'')
     = Inr [''Source: PIB'', ''Date: 2024-03-13'', ''Domain: pib.gov.in'']"
  "prelims_facts (\<lambda>h. True) (sample_rec_rbi s (Some ''2024-03-14'')) (Some ''2024-03-14'')
     = Inr [''Source: PIB'', ''Date: 2024-03-14'', ''Domain: pib.gov.in'']"
proof -
  have n: "urlparse_netloc (\<lambda>h. True) ''https://pib.gov.in/x'' = Inr ''pib.gov.in''"
    by code_simp
  have r: "str_replace ''www.'' [] ''pib.gov.in'' = ''pib.gov.in''" by code_simp
  show "prelims_facts (\<lambda>h. True) (sample_rec_rbi s (Some ''2024-03-13'')) (Some ''2024-03-13'')
     = Inr [''Source: PIB'', ''Date: 2024-03-13'', ''Domain: pib.gov.in'']"
    unfolding prelims_facts_def sample_rec_rbi_def by (simp add: n r fmt_date_def del: str_replace.simps)
  show "prelims_facts (\<lambda>h. True) (sample_rec_rbi s (Some ''2024-03-14'')) (Some ''2024-03-14'')
     = Inr [''Source: PIB'', ''Date: 2024-03-14'', ''Domain: pib.gov.in'']"
    unfolding prelims_facts_def sample_rec_rbi_def by (simp add: n r fmt_date_def del: str_replace.simps)
qed

lemma make_item_rbi:
  "make_item (\<lambda>h. True) (sample_rec_rbi [] (Some ''2024-03-13'')) = Inr (sample_item_rbi [] ''2024-03-13'')"
  "make_item (\<lambda>h. True) (sample_rec_rbi ''Bill tabled'' (Some ''2024-03-14''))
     = Inr (sample_item_rbi ''Bill tabled'' ''2024-03-14'')"
proof -
  have sel: "rec_title (sample_rec_rbi s d) = ''RBI hikes repo rate by 25 bps''"
    "rec_link (sample_rec_rbi s d) = ''https://pib.gov.in/x''"
    "rec_feed_name (sample_rec_rbi s d) = ''PIB''"
    "rec_summary (sample_rec_rbi s d) = s" "rec_date (sample_rec_rbi s d) = d" for s d
    by (simp_all add: sample_rec_rbi_def)
  show "make_item (\<lambda>h. True) (sample_rec_rbi [] (Some ''2024-03-13''))
      = Inr (sample_item_rbi [] ''2024-03-13'')"
    unfolding make_item_def Let_def sel prelims_rbi
    by (simp add: sample_item_rbi_def classify_rbi item_id_scenario)
  show "make_item (\<lambda>h. True) (sample_rec_rbi ''Bill tabled'' (Some ''2024-03-14''))
     = Inr (sample_item_rbi ''Bill tabled'' ''2024-03-14'')"
    unfolding make_item_def Let_def sel prelims_rbi
    by (simp add: sample_item_rbi_def classify_rbi item_id_scenario)
qed

text \<open>
  C5. The id of an item is the first 12 characters of the hexadecimal SHA-1 digest of the
  UTF-8 bytes of title, a vertical bar and link. The digest has 40 characters, so the id has
  exactly 12, each one of \<open>0123456789abcdef\<close>. The id of an item is computed from the title
  and the link of its entry alone: two entries with equal title and link get equal ids,
  whatever their other fields are.
\<close>

theorem item_id_digest_prefix:
  "item_id title link =
     take 12 (hexdigest (sha1 (utf8_encode (or_empty title @ ''|'' @ or_empty link)))) \<and>
   length (hexdigest (sha1 (utf8_encode (or_empty title @ ''|'' @ or_empty link)))) = 40 \<and>
   length (item_id title link) = 12 \<and>
   list_all is_lower_hex (item_id title link) \<and>
   (\<forall>bracketed_host_ok e1 e2 i1 i2.
      make_item bracketed_host_ok e1 = Inr i1 \<and> make_item bracketed_host_ok e2 = Inr i2 \<and>
      rec_title e1 = rec_title e2 \<and> rec_link e1 = rec_link e2 \<longrightarrow>
      it_id i1 = it_id i2 \<and> it_id i1 = item_id (Some (rec_title e1)) (Some (rec_link e1)))"
proof (intro conjI allI impI)
  show "item_id title link =
     take 12 (hexdigest (sha1 (utf8_encode (or_empty title @ ''|'' @ or_empty link))))"
    by (simp add: item_id_def)
  show "length (hexdigest (sha1 (utf8_encode (or_empty title @ ''|'' @ or_empty link)))) = 40"
    by (rule hexdigest_props)
  show "length (item_id title link) = 12" by (rule item_id_props)
  show "list_all is_lower_hex (item_id title link)" by (rule item_id_props)
next
  fix bracketed_host_ok e1 e2 i1 i2
  assume a: "make_item bracketed_host_ok e1 = Inr i1 \<and> make_item bracketed_host_ok e2 = Inr i2 \<and>
      rec_title e1 = rec_title e2 \<and> rec_link e1 = rec_link e2"
  then show "it_id i1 = it_id i2"
    using make_item_id [of bracketed_host_ok e1 i1] make_item_id [of bracketed_host_ok e2 i2]
    by simp
  from a show "it_id i1 = item_id (Some (rec_title e1)) (Some (rec_link e1))"
    using make_item_id [of bracketed_host_ok e1 i1] by simp
qed

theorem item_id_digest_prefix_witness:
  "make_item (\<lambda>h. True) (sample_rec_rbi [] (Some ''2024-03-13''))
     = Inr (sample_item_rbi [] ''2024-03-13'') \<and>
   make_item (\<lambda>h. True) (sample_rec_rbi ''Bill tabled'' (Some ''2024-03-14''))
     = Inr (sample_item_rbi ''Bill tabled'' ''2024-03-14'') \<and>
   rec_title (sample_rec_rbi [] (Some ''2024-03-13''))
     = rec_title (sample_rec_rbi ''Bill tabled'' (Some ''2024-03-14'')) \<and>
   rec_link (sample_rec_rbi [] (Some ''2024-03-13''))
     = rec_link (sample_rec_rbi ''Bill tabled'' (Some ''2024-03-14'')) \<and>
   it_id (sample_item_rbi [] ''2024-03-13'') = it_id (sample_item_rbi ''Bill tabled'' ''2024-03-14'') \<and>
   it_id (sample_item_rbi [] ''2024-03-13'')
     = item_id (Some ''RBI hikes repo rate by 25 bps'') (Some ''https://pib.gov.in/x'') \<and>
   item_id (Some ''RBI hikes repo rate by 25 bps'') (Some ''https://pib.gov.in/x'') = ''579a65972b5d'' \<and>
   hexdigest (sha1 (utf8_encode ''abc'')) = ''a9993e364706816aba3e25717850c26c9cd0d89d''"
proof -
  let ?e1 = "sample_rec_rbi [] (Some ''2024-03-13'')"
  let ?e2 = "sample_rec_rbi ''Bill tabled'' (Some ''2024-03-14'')"
  have t: "rec_title ?e1 = rec_title ?e2" and l: "rec_link ?e1 = rec_link ?e2"
    and t1: "rec_title ?e1 = ''RBI hikes repo rate by 25 bps''"
    and l1: "rec_link ?e1 = ''https://pib.gov.in/x''"
    by (simp_all add: sample_rec_rbi_def)
  from item_id_digest_prefix [of None None] make_item_rbi t l
  have "it_id (sample_item_rbi [] ''2024-03-13'') = it_id (sample_item_rbi ''Bill tabled'' ''2024-03-14'') \<and>
    it_id (sample_item_rbi [] ''2024-03-13'') = item_id (Some (rec_title ?e1)) (Some (rec_link ?e1))"
    by blast
  then have i: "it_id (sample_item_rbi [] ''2024-03-13'') = it_id (sample_item_rbi ''Bill tabled'' ''2024-03-14'')"
    and j: "it_id (sample_item_rbi [] ''2024-03-13'')
      = item_id (Some ''RBI hikes repo rate by 25 bps'') (Some ''https://pib.gov.in/x'')"
    unfolding t1 l1 by blast+
  from make_item_rbi t l i j item_id_scenario sha1_abc show ?thesis by blast
qed

text \<open>
  C9. When fetching or parsing a feed raises, the exception is caught: the feed adds no
  entry, one line naming the feed and the error goes to \<open>stderr\<close>, and the loop goes on with
  the next feed. Loading therefore always ends with the entries of all the feeds that did
  not fail, in order, and one warning per failed feed. A failed feed has no influence on
  what the run writes: the result is that of the run over the other feeds alone. Whenever
  the run writes its output, every entry of a feed that did not fail and that passes the
  recency filter has an item with its title and link in the output.
\<close>

theorem feed_failure_is_contained:
  "load_feeds now parse feeds ([], []) =
     (concat (map (entries_of_feed now parse) feeds),
      concat (map (warnings_of_feed parse) feeds)) \<and>
   (\<forall>f ex. parse (f_url f) = Inl ex \<longrightarrow>
      entries_of_feed now parse f = [] \<and>
      warnings_of_feed parse f = [''[WARN] Failed '' @ f_name f @ '': '' @ str_ex ex]) \<and>
   (\<forall>f es. parse (f_url f) = Inr es \<longrightarrow>
      entries_of_feed now parse f = map (make_rec now f) es \<and> warnings_of_feed parse f = []) \<and>
   fst (run now today_ist bracketed_host_ok parse feeds)
     = concat (map (warnings_of_feed parse) feeds) \<and>
   snd (run now today_ist bracketed_host_ok parse feeds)
     = snd (run now today_ist bracketed_host_ok parse
              (filter (\<lambda>f. \<not> isl (parse (f_url f))) feeds)) \<and>
   (\<forall>out. snd (run now today_ist bracketed_host_ok parse feeds) = Inr out \<longrightarrow>
      (\<forall>f\<in>set feeds. \<forall>es. parse (f_url f) = Inr es \<longrightarrow>
         (\<forall>e\<in>set es. within_days today_ist (rec_date (make_rec now f e)) 14 \<longrightarrow>
            (\<exists>it\<in>set out. it_title it = rec_title (make_rec now f e) \<and>
                           it_link it = rec_link (make_rec now f e)))))"
proof (intro conjI allI impI ballI)
  show "load_feeds now parse feeds ([], []) =
     (concat (map (entries_of_feed now parse) feeds),
      concat (map (warnings_of_feed parse) feeds))"
    by (simp add: load_feeds_eq)
  show "fst (run now today_ist bracketed_host_ok parse feeds)
     = concat (map (warnings_of_feed parse) feeds)"
    by (simp add: run_def load_feeds_eq)
  show "snd (run now today_ist bracketed_host_ok parse feeds)
     = snd (run now today_ist bracketed_host_ok parse
              (filter (\<lambda>f. \<not> isl (parse (f_url f))) feeds))"
    by (simp add: run_def load_feeds_eq concat_entries_filter)
next
  fix f :: feed and ex assume "parse (f_url f) = Inl ex"
  then show "entries_of_feed now parse f = []"
    and "warnings_of_feed parse f = [''[WARN] Failed '' @ f_name f @ '': '' @ str_ex ex]"
    by (simp_all add: entries_of_feed_def warnings_of_feed_def warn_line_def)
next
  fix f :: feed and es assume "parse (f_url f) = Inr es"
  then show "entries_of_feed now parse f = map (make_rec now f) es"
    and "warnings_of_feed parse f = []"
    by (simp_all add: entries_of_feed_def warnings_of_feed_def)
next
  fix out f es e
  assume out: "snd (run now today_ist bracketed_host_ok parse feeds) = Inr out"
    and f: "f \<in> set feeds" and es: "parse (f_url f) = Inr es" and e: "e \<in> set es"
    and w: "within_days today_ist (rec_date (make_rec now f e)) 14"
  let ?r = "make_rec now f e"
  let ?entries = "concat (map (entries_of_feed now parse) feeds)"
  have "?r \<in> set (entries_of_feed now parse f)"
    using es e by (simp add: entries_of_feed_def)
  with f have "?r \<in> set ?entries" by auto
  with w have kept: "?r \<in> set (filter_recent today_ist ?entries)"
    by (simp add: filter_recent_def)
  from out obtain items
    where items: "make_items bracketed_host_ok (filter_recent today_ist ?entries) [] = Inr items"
      and sorted: "sort_items (dedup items) = Inr out"
    by (auto simp: run_def load_feeds_eq split: sum.splits)
  from make_items_keys [OF items kept] have "(rec_title ?r, rec_link ?r) \<in> key ` set items" .
  then have "(rec_title ?r, rec_link ?r) \<in> key ` set (dedup items)"
    by (simp add: dedup_keys)
  moreover have "set out = set (dedup items)"
    using sort_items_mset [OF sorted] by (metis set_mset_mset)
  ultimately obtain it where "it \<in> set out" "key it = (rec_title ?r, rec_link ?r)"
    by auto
  then show "\<exists>it\<in>set out. it_title it = rec_title ?r \<and> it_link it = rec_link ?r"
    by (auto simp: key_def)
qed

lemma sample_load:
  "load_feeds (Date 2024 3 15) sample_parse
     [sample_feed ''Down'' ''https://down.example/rss'', sample_feed ''PIB'' ''https://pib.gov.in/rss'']
     ([], [])
   = ([sample_rec_rbi [] (Some ''2024-03-13'')], [''[WARN] Failed Down: connection refused''])"
  by code_simp

lemma sample_recent:
  "filter_recent (Date 2024 3 15) [sample_rec_rbi [] (Some ''2024-03-13'')]
     = [sample_rec_rbi [] (Some ''2024-03-13'')]"
  by code_simp

lemma sample_run:
  "run (Date 2024 3 15) (Date 2024 3 15) (\<lambda>h. True) sample_parse
     [sample_feed ''Down'' ''https://down.example/rss'', sample_feed ''PIB'' ''https://pib.gov.in/rss'']
   = ([''[WARN] Failed Down: connection refused''], Inr [sample_item_rbi [] ''2024-03-13''])"
  unfolding run_def sample_load
  by (simp add: sample_recent make_item_rbi dedup_def sort_items_def sample_item_rbi_def)

theorem feed_failure_is_contained_witness:
  "sample_parse (f_url (sample_feed ''Down'' ''https://down.example/rss''))
     = Inl (Exception ''connection refused'') \<and>
   warnings_of_feed sample_parse (sample_feed ''Down'' ''https://down.example/rss'')
     = [''[WARN] Failed Down: connection refused''] \<and>
   entries_of_feed (Date 2024 3 15) sample_parse (sample_feed ''Down'' ''https://down.example/rss'') = [] \<and>
   sample_parse (f_url (sample_feed ''PIB'' ''https://pib.gov.in/rss''))
     = Inr [sample_entry ''RBI hikes repo rate by 25 bps'' ''https://pib.gov.in/x''
              [2024, 3, 13, 6, 0, 0, 2, 73, 0]] \<and>
   run (Date 2024 3 15) (Date 2024 3 15) (\<lambda>h. True) sample_parse
     [sample_feed ''Down'' ''https://down.example/rss'', sample_feed ''PIB'' ''https://pib.gov.in/rss'']
   = ([''[WARN] Failed Down: connection refused''], Inr [sample_item_rbi [] ''2024-03-13'']) \<and>
   within_days (Date 2024 3 15)
     (rec_date (make_rec (Date 2024 3 15) (sample_feed ''PIB'' ''https://pib.gov.in/rss'')
        (sample_entry ''RBI hikes repo rate by 25 bps'' ''https://pib.gov.in/x''
              [2024, 3, 13, 6, 0, 0, 2, 73, 0]))) 14 \<and>
   list_ex (\<lambda>it. it_title it = ''RBI hikes repo rate by 25 bps'' \<and> it_link it = ''https://pib.gov.in/x'')
     [sample_item_rbi [] ''2024-03-13'']"
proof -
  let ?down = "sample_feed ''Down'' ''https://down.example/rss''"
  let ?pib = "sample_feed ''PIB'' ''https://pib.gov.in/rss''"
  let ?e = "sample_entry ''RBI hikes repo rate by 25 bps'' ''https://pib.gov.in/x''
              [2024, 3, 13, 6, 0, 0, 2, 73, 0]"
  have pd: "sample_parse (f_url ?down) = Inl (Exception ''connection refused'')"
    by code_simp
  have pp: "sample_parse (f_url ?pib) = Inr [?e]" by code_simp
  have w: "within_days (Date 2024 3 15) (rec_date (make_rec (Date 2024 3 15) ?pib ?e)) 14"
    by code_simp
  have n: "f_name ?down = ''Down''" by (simp add: sample_feed_def)
  note t = feed_failure_is_contained [of "Date 2024 3 15" sample_parse "[?down, ?pib]"
      "Date 2024 3 15" "\<lambda>h. True"]
  from t pd n have a: "warnings_of_feed sample_parse ?down = [''[WARN] Failed Down: connection refused'']"
    and b: "entries_of_feed (Date 2024 3 15) sample_parse ?down = []"
    by auto
  have c: "list_ex (\<lambda>it. it_title it = ''RBI hikes repo rate by 25 bps'' \<and> it_link it = ''https://pib.gov.in/x'')
     [sample_item_rbi [] ''2024-03-13'']"
    by (simp add: sample_item_rbi_def)
  from pd a b pp sample_run w c show ?thesis by blast
qed

end
